theory Spec2Isabelle
  imports Main "HOL-Library.Word" "HOL-Library.Multiset" "HOL-Library.Sublist"
begin

unbundle bit_operations_syntax

section \<open>Bytes, errors and panics\<close>

text \<open>
  The downloader is a Go package. A \<open>[]byte\<close> is a list of 8-bit words, a \<open>uint64\<close> is a
  64-bit word. A Go \<open>error\<close> is represented by its message (\<open>err.Error()\<close>), which is all the
  package ever inspects. A run-time panic is kept apart from a returned error.
\<close>

type_synonym byte = "8 word"

type_synonym error = string

datatype go_panic =
    IndexOutOfRange int int
  | SliceBoundsOutOfRange int
  | InputNotFullBlocks
  | NilDereference
  | CloseOfClosedChannel
  | SendOnClosedChannel

datatype fault = Err error | Panic go_panic

text \<open>\<open>[]byte(s)\<close>: the bytes of a Go string.\<close>

definition bytes :: "string \<Rightarrow> byte list" where
  "bytes s = map of_char s"

section \<open>Strings and paths\<close>

text \<open>\<open>strings.Contains(s, substr)\<close>: \<open>substr\<close> occurs in \<open>s\<close> as a contiguous run.\<close>

fun Contains :: "string \<Rightarrow> string \<Rightarrow> bool" where
  "Contains [] substr = (substr = [])"
| "Contains (c # s) substr = (prefix substr (c # s) \<or> Contains s substr)"

text \<open>\<open>fmt.Sprintf("%d", n)\<close> for an unsigned integer: its decimal digits.\<close>

definition digit :: "nat \<Rightarrow> char" where
  "digit d = char_of (48 + d)"

function decimal :: "nat \<Rightarrow> string" where
  "decimal n = (if n < 10 then [digit n] else decimal (n div 10) @ [digit (n mod 10)])"
  by pat_completeness auto
termination
  by (relation "measure (\<lambda>n. n)") auto

declare decimal.simps [simp del]

text \<open>The number that a string of decimal digits denotes.\<close>

definition decval :: "string \<Rightarrow> nat" where
  "decval s = foldl (\<lambda>a c. 10 * a + (of_char c - 48)) 0 s"

text \<open>
  Paths are clean, slash-separated strings. \<open>filepath.Join(dir, name)\<close> of a clean
  directory and a single path element is the two joined by the separator.
  \<open>inDir d q\<close>: \<open>q\<close> is \<open>d\<close> itself or lies below it. \<open>parentDir\<close>: the path without
  its last element.
\<close>

definition filepath_Join :: "string \<Rightarrow> string \<Rightarrow> string" where
  "filepath_Join dir name = dir @ ''/'' @ name"

definition inDir :: "string \<Rightarrow> string \<Rightarrow> bool" where
  "inDir d q = (q = d \<or> prefix (d @ ''/'') q)"

definition parentDir :: "string \<Rightarrow> string" where
  "parentDir p = rev (drop 1 (dropWhile (\<lambda>c. c \<noteq> CHR ''/'') (rev p)))"

definition pathPrefixes :: "string \<Rightarrow> string list" where
  "pathPrefixes p = [take i p. i \<leftarrow> [1..<length p], p ! i = CHR ''/''] @ [p]"

section \<open>The data model\<close>

text \<open>
  \<open>m3u8.Key\<close> and \<open>m3u8.MediaSegment\<close> come from the playlist library; only the fields
  the package reads are kept. \<open>segment\<close> embeds a \<open>*m3u8.MediaSegment\<close> and adds the
  staging path. A nil \<open>Key\<close> pointer is \<open>None\<close>.
\<close>

record key =
  KeyURI :: string
  KeyIV :: string

record MediaSegment =
  SeqId :: "64 word"
  URI :: string
  Key :: "key option"

record segment = MediaSegment +
  path :: string

text \<open>
  A \<open>downloadResult\<close> carries the error of a download, if any, and the sequence number.
  Its field \<open>totalSegments\<close> is never written or read and is left out.
\<close>

record downloadResult =
  err :: "error option"
  seqId :: "64 word"

text \<open>
  An \<open>*http.Client\<close> matters by its identity only: \<open>http.DefaultClient\<close> or a client
  made by the caller. An \<open>http.Header\<close> is a list of fields.
\<close>

datatype client = DefaultClient | Client nat

type_synonym header = "(string \<times> string) list"

record request =
  Via :: client
  Method :: string
  URL :: string
  Header :: header

record response =
  StatusCode :: int
  Status :: string
  Body :: "byte list"
  BodyErr :: "error option"

text \<open>
  \<open>Body\<close> holds the bytes the body delivers; when \<open>BodyErr\<close> is set, reading the body
  fails with that error after delivering them.
\<close>

datatype playlist = Master | Media "MediaSegment option list" "key option"

text \<open>
  The environment: what the Go standard library, the playlist library and the network
  do. \<open>transport n r\<close> is the answer of the network to request \<open>r\<close> when it is the
  \<open>n\<close>-th request of the run, so answers may change from one attempt to the next.
  \<open>aes_CBCDecrypt key iv src\<close> is the buffer that \<open>aes.NewCipher\<close>,
  \<open>cipher.NewCBCDecrypter\<close> and \<open>CryptBlocks\<close> fill. \<open>url_Parse\<close> is the error of
  \<open>url.Parse\<close>, if any, and \<open>url_Resolve base ref\<close> the string of \<open>baseURL.Parse(ref)\<close>.
  \<open>randomNames\<close> are the random strings \<open>os.MkdirTemp\<close> tries, in order.
\<close>

record env =
  transport :: "nat \<Rightarrow> request \<Rightarrow> error + response"
  url_Parse :: "string \<Rightarrow> error option"
  url_Resolve :: "string \<Rightarrow> string \<Rightarrow> error + string"
  m3u8_DecodeFrom :: "byte list \<Rightarrow> error + playlist"
  aes_CBCDecrypt :: "byte list \<Rightarrow> byte list \<Rightarrow> byte list \<Rightarrow> byte list"
  os_TempDir :: string
  randomNames :: "string list"

text \<open>
  The world the package acts on: regular files with their contents, directories, and the
  HTTP requests issued so far, in order.
\<close>

record world =
  files :: "string \<rightharpoonup> byte list"
  dirs :: "string set"
  requests :: "request list"

record hlsDownloader =
  h_url :: string
  h_output :: string
  h_path :: string
  h_filename :: string
  h_extension :: string
  h_tmpDir :: string
  h_client :: client
  h_header :: header
  h_workers :: int
  h_bar :: bool

text \<open>\<open>h_bar\<close>: whether a progress bar is installed (\<open>h.bar != nil\<close>).\<close>

section \<open>The file system\<close>

text \<open>
  \<open>os.Create\<close> truncates or creates a regular file; it fails on a directory and where
  the parent directory is missing. \<open>file.Write\<close> appends at the handle's offset; the
  handle is the path, and a write to a file unlinked meanwhile is not visible at any path.
  \<open>os.RemoveAll\<close> removes the path and everything below it and succeeds also where the
  path does not exist.
\<close>

definition os_Create :: "world \<Rightarrow> string \<Rightarrow> error + world" where
  "os_Create w name =
     (if name \<in> dirs w then Inl ''is a directory''
      else if parentDir name \<notin> dirs w then Inl ''no such file or directory''
      else Inr (w\<lparr>files := (files w)(name \<mapsto> [])\<rparr>))"

definition file_Write :: "world \<Rightarrow> string \<Rightarrow> byte list \<Rightarrow> error option \<times> world" where
  "file_Write w name d =
     (case files w name of
        None \<Rightarrow> (None, w)
      | Some old \<Rightarrow> (None, w\<lparr>files := (files w)(name \<mapsto> old @ d)\<rparr>))"

definition os_Open :: "world \<Rightarrow> string \<Rightarrow> error + string" where
  "os_Open w name =
     (if name \<in> dirs w \<or> name \<in> dom (files w) then Inr name
      else Inl ''no such file or directory'')"

definition io_ReadAll :: "world \<Rightarrow> string \<Rightarrow> error + byte list" where
  "io_ReadAll w name =
     (case files w name of
        None \<Rightarrow> Inl ''is a directory''
      | Some d \<Rightarrow> Inr d)"

definition os_RemoveAll :: "world \<Rightarrow> string \<Rightarrow> error option \<times> world" where
  "os_RemoveAll w name =
     (None, w\<lparr>files := (\<lambda>q. if inDir name q then None else files w q),
               dirs := {q \<in> dirs w. \<not> inDir name q}\<rparr>)"

definition os_MkdirAll :: "world \<Rightarrow> string \<Rightarrow> error + world" where
  "os_MkdirAll w name =
     (if \<exists>q \<in> set (pathPrefixes name). q \<in> dom (files w) then Inl ''not a directory''
      else Inr (w\<lparr>dirs := dirs w \<union> set (pathPrefixes name)\<rparr>))"

text \<open>
  \<open>os.MkdirTemp("", "*-segments")\<close>: a new directory below \<open>os.TempDir()\<close> whose name is
  a random string followed by \<open>-segments\<close>; a name that exists is skipped and the next
  random string tried, a bounded number of times.
\<close>

fun mkdirTempTry :: "string \<Rightarrow> string list \<Rightarrow> world \<Rightarrow> error + (string \<times> world)" where
  "mkdirTempTry tmp [] w = Inl ''file exists''"
| "mkdirTempTry tmp (r # rs) w =
     (let name = filepath_Join tmp (r @ ''-segments'') in
      if tmp \<notin> dirs w then Inl ''no such file or directory''
      else if name \<in> dirs w \<or> name \<in> dom (files w) then mkdirTempTry tmp rs w
      else Inr (name, w\<lparr>dirs := insert name (dirs w)\<rparr>))"

definition os_MkdirTemp :: "env \<Rightarrow> world \<Rightarrow> error + (string \<times> world)" where
  "os_MkdirTemp e w = mkdirTempTry (os_TempDir e) (randomNames e) w"

section \<open>HTTP\<close>

text \<open>
  \<^verbatim>\<open>
  func newRequest(url string, header *http.Header) (*http.Request, error) {
      req, err := http.NewRequest(http.MethodGet, url, nil)
      if err != nil { return nil, err }
      req.Header = *header
      return req, nil
  }
  \<close>
  The client that sends a request is recorded in the request when it is sent.
\<close>

definition http_NewRequest :: "env \<Rightarrow> string \<Rightarrow> string \<Rightarrow> error + request" where
  "http_NewRequest e m u =
     (case url_Parse e u of
        Some x \<Rightarrow> Inl x
      | None \<Rightarrow> Inr \<lparr>Via = DefaultClient, Method = m, URL = u, Header = []\<rparr>)"

definition newRequest :: "env \<Rightarrow> string \<Rightarrow> header \<Rightarrow> error + request" where
  "newRequest e u hdr =
     (case http_NewRequest e ''GET'' u of
        Inl x \<Rightarrow> Inl x
      | Inr req \<Rightarrow> Inr (req\<lparr>Header := hdr\<rparr>))"

text \<open>\<open>c.Do(req)\<close> sends the request through client \<open>c\<close>; \<open>c.Get(url)\<close> builds a
  GET request with no header fields of the caller and sends it.\<close>

definition client_Do :: "env \<Rightarrow> client \<Rightarrow> request \<Rightarrow> world \<Rightarrow> (error + response) \<times> world" where
  "client_Do e c req w =
     (let sent = req\<lparr>Via := c\<rparr> in
      (transport e (length (requests w)) sent, w\<lparr>requests := requests w @ [sent]\<rparr>))"

definition client_Get :: "env \<Rightarrow> client \<Rightarrow> string \<Rightarrow> world \<Rightarrow> (error + response) \<times> world" where
  "client_Get e c u w =
     (case http_NewRequest e ''GET'' u of
        Inl x \<Rightarrow> (Inl x, w)
      | Inr req \<Rightarrow> client_Do e c req w)"

text \<open>\<open>io.ReadAll(res.Body)\<close>.\<close>

definition body_ReadAll :: "response \<Rightarrow> error + byte list" where
  "body_ReadAll res = (case BodyErr res of Some x \<Rightarrow> Inl x | None \<Rightarrow> Inr (Body res))"

section \<open>Fetching and parsing the manifest\<close>

text \<open>
  \<^verbatim>\<open>
  func getM3u8ListType(url string, header *http.Header) (m3u8.Playlist, m3u8.ListType, error) {
      req, err := newRequest(url, header)
      if err != nil { return nil, 0, err }
      res, err := http.DefaultClient.Do(req)
      if err != nil { return nil, 0, err }
      defer res.Body.Close()
      if res.StatusCode != 200 { return nil, 0, errors.New(res.Status) }
      p, t, err := m3u8.DecodeFrom(res.Body, false)
      if err != nil { return nil, 0, err }
      return p, t, nil
  }
  \<close>
  The playlist and its list type are one value of type \<open>playlist\<close>.
\<close>

definition getM3u8ListType :: "env \<Rightarrow> string \<Rightarrow> header \<Rightarrow> world \<Rightarrow> (error + playlist) \<times> world" where
  "getM3u8ListType e u hdr w =
     (case newRequest e u hdr of
        Inl x \<Rightarrow> (Inl x, w)
      | Inr req \<Rightarrow>
          (case client_Do e DefaultClient req w of
             (Inl x, w') \<Rightarrow> (Inl x, w')
           | (Inr res, w') \<Rightarrow>
               if StatusCode res \<noteq> 200 then (Inl (Status res), w')
               else
                 (case body_ReadAll res of
                    Inl x \<Rightarrow> (Inl x, w')
                  | Inr b \<Rightarrow> (m3u8_DecodeFrom e b, w'))))"

text \<open>
  The loop of \<open>parseHLSSegments\<close> over \<open>mediaList.Segments\<close>. A nil entry is skipped. A
  segment without a key of its own is given the pointer to the playlist's key, so all such
  segments share one key object: a key URI resolved through one of them is the URI that
  all of them have, the earlier ones too. The loop threads the playlist's key and marks
  the segments that share it; \<open>sharedKey\<close> gives them its last state.
  \<^verbatim>\<open>
      if seg == nil { continue }
      if !strings.Contains(seg.URI, "http") {
          segmentURL, err := baseURL.Parse(seg.URI)
          if err != nil { return nil, err }
          seg.URI = segmentURL.String()
      }
      if seg.Key == nil && mediaList.Key != nil { seg.Key = mediaList.Key }
      if seg.Key != nil && !strings.Contains(seg.Key.URI, "http") {
          keyURL, err := baseURL.Parse(seg.Key.URI)
          if err != nil { return nil, err }
          seg.Key.URI = keyURL.String()
      }
      segment := &segment{MediaSegment: seg}
      segments = append(segments, segment)
  \<close>
\<close>

definition resolveKey :: "env \<Rightarrow> string \<Rightarrow> key \<Rightarrow> error + key" where
  "resolveKey e base k =
     (if \<not> Contains (KeyURI k) ''http'' then
        (case url_Resolve e base (KeyURI k) of
           Inl x \<Rightarrow> Inl x
         | Inr u \<Rightarrow> Inr (k\<lparr>KeyURI := u\<rparr>))
      else Inr k)"

fun parseLoop :: "env \<Rightarrow> string \<Rightarrow> MediaSegment option list \<Rightarrow> key option \<Rightarrow> (bool \<times> segment) list \<Rightarrow>
    error + (bool \<times> segment) list \<times> key option" where
  "parseLoop e base [] mk segments = Inr (segments, mk)"
| "parseLoop e base (None # rest) mk segments = parseLoop e base rest mk segments"
| "parseLoop e base (Some seg # rest) mk segments =
     (case (if \<not> Contains (URI seg) ''http'' then url_Resolve e base (URI seg) else Inr (URI seg)) of
        Inl x \<Rightarrow> Inl x
      | Inr u \<Rightarrow>
          (case (Key seg, mk) of
             (None, None) \<Rightarrow>
               parseLoop e base rest mk
                 (segments @ [(False, \<lparr>SeqId = SeqId seg, URI = u, Key = None, path = []\<rparr>)])
           | (None, Some k) \<Rightarrow>
               (case resolveKey e base k of
                  Inl x \<Rightarrow> Inl x
                | Inr k' \<Rightarrow>
                    parseLoop e base rest (Some k')
                      (segments @ [(True, \<lparr>SeqId = SeqId seg, URI = u, Key = Some k', path = []\<rparr>)]))
           | (Some k, _) \<Rightarrow>
               (case resolveKey e base k of
                  Inl x \<Rightarrow> Inl x
                | Inr k' \<Rightarrow>
                    parseLoop e base rest mk
                      (segments @ [(False, \<lparr>SeqId = SeqId seg, URI = u, Key = Some k', path = []\<rparr>)]))))"

definition sharedKey :: "key option \<Rightarrow> bool \<times> segment \<Rightarrow> segment" where
  "sharedKey mk marked = (if fst marked then (snd marked)\<lparr>Key := mk\<rparr> else snd marked)"

text \<open>
  \<^verbatim>\<open>
  func parseHLSSegments(URL string, header *http.Header) ([]*segment, error) {
      baseURL, err := url.Parse(URL)
      if err != nil { return nil, errors.New("invalid url") }
      p, t, err := getM3u8ListType(URL, header)
      if err != nil { return nil, err }
      if t != m3u8.MEDIA { return nil, errors.New("M38U is not media type") }
      mediaList := p.(*m3u8.MediaPlaylist)
      var segments []*segment
      for _, seg := range mediaList.Segments { ... }
      return segments, nil
  }
  \<close>
  The staging path of a segment made here is the empty string.
\<close>

definition parseHLSSegments :: "env \<Rightarrow> string \<Rightarrow> header \<Rightarrow> world \<Rightarrow> (error + segment list) \<times> world" where
  "parseHLSSegments e u hdr w =
     (case url_Parse e u of
        Some x \<Rightarrow> (Inl ''invalid url'', w)
      | None \<Rightarrow>
          (case getM3u8ListType e u hdr w of
             (Inl x, w') \<Rightarrow> (Inl x, w')
           | (Inr Master, w') \<Rightarrow> (Inl ''M38U is not media type'', w')
           | (Inr (Media segs mk), w') \<Rightarrow>
               (case parseLoop e u segs mk [] of
                  Inl x \<Rightarrow> (Inl x, w')
                | Inr (segments, mk') \<Rightarrow> (Inr (map (sharedKey mk') segments), w'))))"

section \<open>Decryption\<close>

text \<open>
  \<^verbatim>\<open>
  func pkcs5UnPadding(origData []byte) []byte {
      length := len(origData)
      unPadding := int(origData[length-1])
      return origData[:(length - unPadding)]
  }
  \<close>
  The index expression panics unless \<open>0 \<le> length - 1 < length\<close>. The slice expression
  \<open>origData[:k]\<close> panics unless \<open>0 \<le> k \<le> cap(origData)\<close>; since \<open>unPadding\<close> is
  the value of a byte, \<open>k \<le> length \<le> cap\<close> always holds and only \<open>k < 0\<close> is left.
\<close>

definition pkcs5UnPadding :: "byte list \<Rightarrow> go_panic + byte list" where
  "pkcs5UnPadding origData =
     (let len = int (length origData) in
      if \<not> (0 \<le> len - 1 \<and> len - 1 < len) then Inl (IndexOutOfRange (len - 1) len)
      else
        let unPadding = uint (origData ! nat (len - 1)) in
        if len - unPadding < 0 then Inl (SliceBoundsOutOfRange (len - unPadding))
        else Inr (take (nat (len - unPadding)) origData))"

text \<open>
  \<^verbatim>\<open>
  func decryptAES128(crypted, key, iv []byte) ([]byte, error) {
      block, err := aes.NewCipher(key)
      if err != nil { return nil, err }
      blockSize := block.BlockSize()
      blockMode := cipher.NewCBCDecrypter(block, iv[:blockSize])
      origData := make([]byte, len(crypted))
      blockMode.CryptBlocks(origData, crypted)
      origData = pkcs5UnPadding(origData)
      return origData, nil
  }
  \<close>
  \<open>aes.NewCipher\<close> refuses a key that is not 16, 24 or 32 bytes long, with an error
  that names the size. The block size is 16. \<open>iv[:16]\<close> panics when the slice is too
  short (its capacity is taken to be its length), and \<open>CryptBlocks\<close> panics on an input
  that is not a whole number of blocks.
\<close>

definition decryptAES128 :: "env \<Rightarrow> byte list \<Rightarrow> byte list \<Rightarrow> byte list \<Rightarrow> fault + byte list" where
  "decryptAES128 e crypted k iv =
     (if length k \<notin> {16, 24, 32}
      then Inl (Err (''crypto/aes: invalid key size '' @ decimal (length k)))
      else
        let blockSize = 16 in
        if length iv < blockSize then Inl (Panic (SliceBoundsOutOfRange (int blockSize)))
        else if length crypted mod blockSize \<noteq> 0 then Inl (Panic InputNotFullBlocks)
        else
          let origData = aes_CBCDecrypt e k (take blockSize iv) crypted in
          (case pkcs5UnPadding origData of
             Inl p \<Rightarrow> Inl (Panic p)
           | Inr origData' \<Rightarrow> Inr origData'))"

text \<open>
  \<^verbatim>\<open>
  func defaultIV(seqID uint64) []byte {
      buf := make([]byte, 16)
      binary.BigEndian.PutUint64(buf[8:], seqID)
      return buf
  }
  \<close>
  \<open>PutUint64(b, v)\<close> stores \<open>byte(v >> 56)\<close>, \<open>byte(v >> 48)\<close>, ..., \<open>byte(v)\<close> in
  \<open>b[0]\<close>, ..., \<open>b[7]\<close>.
\<close>

definition PutUint64 :: "byte list \<Rightarrow> 64 word \<Rightarrow> byte list" where
  "PutUint64 b v =
     b[0 := ucast (drop_bit 56 v), 1 := ucast (drop_bit 48 v), 2 := ucast (drop_bit 40 v),
       3 := ucast (drop_bit 32 v), 4 := ucast (drop_bit 24 v), 5 := ucast (drop_bit 16 v),
       6 := ucast (drop_bit 8 v), 7 := ucast v]"

text \<open>
  \<open>binary.BigEndian.Uint64(b)\<close>, the decoder that belongs to \<open>PutUint64\<close>:
  \<open>uint64(b[7]) | uint64(b[6])<<8 | ... | uint64(b[0])<<56\<close>.
\<close>

definition Uint64 :: "byte list \<Rightarrow> 64 word" where
  "Uint64 b =
     ucast (b ! 7) OR push_bit 8 (ucast (b ! 6)) OR push_bit 16 (ucast (b ! 5)) OR
     push_bit 24 (ucast (b ! 4)) OR push_bit 32 (ucast (b ! 3)) OR push_bit 40 (ucast (b ! 2)) OR
     push_bit 48 (ucast (b ! 1)) OR push_bit 56 (ucast (b ! 0))"

definition defaultIV :: "64 word \<Rightarrow> byte list" where
  "defaultIV seqID =
     (let buf = replicate 16 0 in
      take 8 buf @ PutUint64 (drop 8 buf) seqID)"

text \<open>
  \<^verbatim>\<open>
  func getKey(segment *segment, client *http.Client) (key []byte, iv []byte, err error) {
      res, err := client.Get(segment.Key.URI)
      if err != nil { return nil, nil, err }
      if res.StatusCode != 200 { return nil, nil, errors.New("Failed to get descryption key") }
      key, err = io.ReadAll(res.Body)
      if err != nil { return nil, nil, err }
      iv = []byte(segment.Key.IV)
      if len(iv) == 0 { iv = defaultIV(segment.SeqId) }
      return
  }
  \<close>
\<close>

definition getKey :: "env \<Rightarrow> segment \<Rightarrow> client \<Rightarrow> world \<Rightarrow> (fault + byte list \<times> byte list) \<times> world" where
  "getKey e segment c w =
     (case Key segment of
        None \<Rightarrow> (Inl (Panic NilDereference), w)
      | Some k \<Rightarrow>
          (case client_Get e c (KeyURI k) w of
             (Inl x, w') \<Rightarrow> (Inl (Err x), w')
           | (Inr res, w') \<Rightarrow>
               if StatusCode res \<noteq> 200 then (Inl (Err ''Failed to get descryption key''), w')
               else
                 (case body_ReadAll res of
                    Inl x \<Rightarrow> (Inl (Err x), w')
                  | Inr kb \<Rightarrow>
                      (let iv = bytes (KeyIV k) in
                       if length iv = 0 then (Inr (kb, defaultIV (SeqId segment)), w')
                       else (Inr (kb, iv), w')))))"

text \<open>
  The scan for the sync byte at the end of \<open>decrypt\<close>:
  \<^verbatim>\<open>
      for j := 0; j < len(data); j++ {
          if data[j] == syncByte {
              data = data[j:]
              break
          }
      }
  \<close>
\<close>

definition syncByte :: byte where
  "syncByte = 71"

function syncScan :: "byte list \<Rightarrow> nat \<Rightarrow> byte list" where
  "syncScan data j =
     (if j < length data then
        (if data ! j = syncByte then drop j data else syncScan data (Suc j))
      else data)"
  by pat_completeness auto
termination
  by (relation "measure (\<lambda>(data, j). length data - j)") auto

declare syncScan.simps [simp del]

text \<open>
  \<^verbatim>\<open>
  func decrypt(segment *segment, client *http.Client) ([]byte, error) {
      file, err := os.Open(segment.path)
      if err != nil { return nil, err }
      defer file.Close()
      data, err := io.ReadAll(file)
      if err != nil { return nil, err }
      if segment.Key != nil {
          key, iv, err := getKey(segment, client)
          if err != nil { return nil, err }
          data, err = decryptAES128(data, key, iv)
          if err != nil { return nil, err }
      }
      ... the scan for the sync byte ...
      return data, nil
  }
  \<close>
  \<open>decryptPayload\<close> is the function up to the scan: it yields the payload, decrypted
  where the segment has a key. \<open>decrypt\<close> is the whole function.
\<close>

definition decryptPayload :: "env \<Rightarrow> segment \<Rightarrow> client \<Rightarrow> world \<Rightarrow> (fault + byte list) \<times> world" where
  "decryptPayload e segment c w =
     (case os_Open w (path segment) of
        Inl x \<Rightarrow> (Inl (Err x), w)
      | Inr file \<Rightarrow>
          (case io_ReadAll w file of
             Inl x \<Rightarrow> (Inl (Err x), w)
           | Inr data \<Rightarrow>
               (case Key segment of
                  None \<Rightarrow> (Inr data, w)
                | Some k \<Rightarrow>
                    (case getKey e segment c w of
                       (Inl f, w') \<Rightarrow> (Inl f, w')
                     | (Inr (kb, iv), w') \<Rightarrow>
                         (case decryptAES128 e data kb iv of
                            Inl f \<Rightarrow> (Inl f, w')
                          | Inr data' \<Rightarrow> (Inr data', w'))))))"

definition decrypt :: "env \<Rightarrow> segment \<Rightarrow> client \<Rightarrow> world \<Rightarrow> (fault + byte list) \<times> world" where
  "decrypt e segment c w =
     (case decryptPayload e segment c w of
        (Inl f, w') \<Rightarrow> (Inl f, w')
      | (Inr data, w') \<Rightarrow> (Inr (syncScan data 0), w'))"

section \<open>Joining\<close>

text \<open>
  \<^verbatim>\<open>
  func (h *hlsDownloader) join(segments []*segment) (string, error) {
      file, err := os.Create(h.output)
      if err != nil { return "", err }
      defer file.Close()
      sort.Slice(segments, func(i, j int) bool {
          return segments[i].SeqId < segments[j].SeqId
      })
      for _, segment := range segments {
          d, err := decrypt(segment, h.client)
          if err != nil { return "", err }
          if _, err := file.Write(d); err != nil { return "", err }
          if err := os.RemoveAll(segment.path); err != nil { return "", err }
      }
      return h.output, nil
  }
  \<close>
  \<open>sort.Slice\<close> is not stable; it is modelled by insertion sort on the key, which every
  sorting procedure agrees with when the keys are distinct.
\<close>

fun joinLoop :: "hlsDownloader \<Rightarrow> env \<Rightarrow> segment list \<Rightarrow> world \<Rightarrow> fault option \<times> world" where
  "joinLoop h e [] w = (None, w)"
| "joinLoop h e (segment # rest) w =
     (case decrypt e segment (h_client h) w of
        (Inl f, w1) \<Rightarrow> (Some f, w1)
      | (Inr d, w1) \<Rightarrow>
          (case file_Write w1 (h_output h) d of
             (Some x, w2) \<Rightarrow> (Some (Err x), w2)
           | (None, w2) \<Rightarrow>
               (case os_RemoveAll w2 (path segment) of
                  (Some x, w3) \<Rightarrow> (Some (Err x), w3)
                | (None, w3) \<Rightarrow> joinLoop h e rest w3)))"

definition join :: "hlsDownloader \<Rightarrow> env \<Rightarrow> segment list \<Rightarrow> world \<Rightarrow> (fault + string) \<times> world" where
  "join h e segments w =
     (case os_Create w (h_output h) of
        Inl x \<Rightarrow> (Inl (Err x), w)
      | Inr w0 \<Rightarrow>
          (case joinLoop h e (sort_key SeqId segments) w0 of
             (Some f, w') \<Rightarrow> (Inl f, w')
           | (None, w') \<Rightarrow> (Inr (h_output h), w')))"

section \<open>Downloading one segment\<close>

text \<open>
  \<^verbatim>\<open>
  func (h *hlsDownloader) downloadSegment(segment *segment) error {
      req, err := newRequest(segment.URI, h.header)
      if err != nil { return err }
      res, err := h.client.Do(req)
      if err != nil { return err }
      defer res.Body.Close()
      if res.StatusCode != 200 { return errors.New(res.Status) }
      file, err := os.Create(segment.path)
      if err != nil { return err }
      defer file.Close()
      _, err = io.Copy(file, res.Body)
      if err != nil { return err }
      return nil
  }
  \<close>
  \<open>io.Copy\<close> writes what the body delivers and then reports the body's error, if any.
\<close>

definition downloadSegment :: "hlsDownloader \<Rightarrow> env \<Rightarrow> segment \<Rightarrow> world \<Rightarrow> error option \<times> world" where
  "downloadSegment h e segment w =
     (case newRequest e (URI segment) (h_header h) of
        Inl x \<Rightarrow> (Some x, w)
      | Inr req \<Rightarrow>
          (case client_Do e (h_client h) req w of
             (Inl x, w1) \<Rightarrow> (Some x, w1)
           | (Inr res, w1) \<Rightarrow>
               if StatusCode res \<noteq> 200 then (Some (Status res), w1)
               else
                 (case os_Create w1 (path segment) of
                    Inl x \<Rightarrow> (Some x, w1)
                  | Inr w2 \<Rightarrow>
                      (case file_Write w2 (path segment) (Body res) of
                         (Some x, w3) \<Rightarrow> (Some x, w3)
                       | (None, w3) \<Rightarrow> (BodyErr res, w3)))))"

section \<open>Staging paths\<close>

text \<open>
  The feeder names the staging file of a segment after its sequence number:
  \<^verbatim>\<open>
      segName := fmt.Sprintf("seg%d.ts", segment.SeqId)
      segment.path = filepath.Join(h.tmpDir, segName)
  \<close>
\<close>

definition segName :: "64 word \<Rightarrow> string" where
  "segName sid = ''seg'' @ decimal (unat sid) @ ''.ts''"

definition assignPath :: "hlsDownloader \<Rightarrow> segment \<Rightarrow> segment" where
  "assignPath h segment = segment\<lparr>path := filepath_Join (h_tmpDir h) (segName (SeqId segment))\<rparr>"

section \<open>The pipeline: feeder, workers, coordinator\<close>

text \<open>
  \<open>processSegments\<close> starts \<open>h.workers\<close> goroutines running \<open>downloadSegments\<close>, one
  running \<open>prepareSegments\<close> (the feeder), one that waits for the wait group and then sends
  on \<open>wc.success\<close> (the observer), and itself runs the select loop (the coordinator).
  The goroutines are modelled as an interleaving of atomic steps on a shared state. Each
  goroutine has a program counter that says where in its code it stands; the channels are
  unbuffered, so a send and the matching receive are one step of both parties; a closed
  channel is a flag.

  The worker, with the places its program counter names:
  \<^verbatim>\<open>
  func (h *hlsDownloader) downloadSegments(wc *workerController) {
      defer wc.wg.Done()
      maxAttempts := 3
      for segment := range wc.segments {                          // WRange
          attempts := 0
          for {
              if h.isAbort(wc) {                                  // WCheck
                  close(wc.downloadResult)                        // WClose
                  return
              }
              err := h.downloadSegment(segment)                   // WAttempt
              if err == nil {
                  wc.downloadResult <- &downloadResult{seqId: segment.SeqId}    // WSend
                  break
              }
              connectionReset := strings.Contains(err.Error(), "connection reset by peer")
              if connectionReset && attempts < maxAttempts {
                  attempts++
                  time.Sleep(time.Second)                         // WSleep
                  continue
              }
              wc.downloadResult <- &downloadResult{err: err, seqId: segment.SeqId}  // WSend
              break
          }
      }
  }                                                               // WDone
  \<close>
  \<open>WCheck\<close>, \<open>WAttempt\<close> and \<open>WSleep\<close> carry the segment and the value of
  \<open>attempts\<close>; \<open>WSleep\<close> also the duration passed to \<open>time.Sleep\<close>, in nanoseconds.
\<close>

datatype workerPc =
    WRange
  | WCheck segment nat
  | WAttempt segment nat
  | WSleep segment nat nat
  | WSend downloadResult
  | WClose
  | WDone

text \<open>
  The feeder: \<open>FLoop k\<close> stands at the head of the loop with \<open>k\<close> segments done,
  \<open>FSend k\<close> is blocked in the send of segment \<open>k\<close>.
  \<^verbatim>\<open>
  func (h *hlsDownloader) prepareSegments(segments []*segment, wc *workerController) {
      defer close(wc.segments)
      for _, segment := range segments {                          // FLoop
          if h.isAbort(wc) { return }
          segName := fmt.Sprintf("seg%d.ts", segment.SeqId)
          segment.path = filepath.Join(h.tmpDir, segName)
          wc.segments <- segment                                  // FSend
      }
  }                                                               // FDone
  \<close>
  The coordinator: \<open>CSelect\<close> stands at the select, \<open>CAbort err\<close> has received a result
  with an error and is about to close \<open>wc.abort\<close>, \<open>CReturn\<close> has returned.
  \<^verbatim>\<open>
      for {
          select {                                                // CSelect
          case <-wc.success:
              return nil
          case result := <-wc.downloadResult:
              if result.err != nil {
                  close(wc.abort)                                 // CAbort
                  return result.err
              }
              if h.bar != nil { h.bar.Increment() }
          }
      }
  \<close>
  The observer: \<open>go func() { wc.wg.Wait(); wc.success <- struct{}{} }()\<close>.
\<close>

datatype feederPc = FLoop nat | FSend nat | FDone

datatype coordinatorPc = CSelect | CAbort error | CReturn "error option"

datatype observerPc = OWait | OSend | ODone

text \<open>
  The shared state. \<open>segs\<close> are the segment objects the slice points to (the feeder
  writes their paths); \<open>abort\<close>, \<open>segmentsClosed\<close> and \<open>resultClosed\<close> say whether
  \<open>wc.abort\<close>, \<open>wc.segments\<close> and \<open>wc.downloadResult\<close> have been closed; \<open>wg\<close> is the
  wait group's counter; \<open>bar\<close> counts the calls of \<open>Increment\<close>; \<open>panicked\<close> is set
  when a goroutine panics, which ends the program.
\<close>

record pipeline =
  world_of :: world
  segs :: "segment list"
  abort :: bool
  segmentsClosed :: bool
  resultClosed :: bool
  wg :: nat
  coordinator :: coordinatorPc
  feeder :: feederPc
  workers :: "workerPc list"
  observer :: observerPc
  bar :: nat
  panicked :: "go_panic option"

definition maxAttempts :: nat where
  "maxAttempts = 3"

definition time_Second :: nat where
  "time_Second = 1000000000"

definition connectionReset :: "error \<Rightarrow> bool" where
  "connectionReset x = Contains x ''connection reset by peer''"

text \<open>
  \<open>isAbort\<close> is a select with a default case on \<open>wc.abort\<close>, on which nothing is ever
  sent: it returns true exactly when the channel has been closed.
\<close>

definition isAbort :: "pipeline \<Rightarrow> bool" where
  "isAbort s = abort s"

text \<open>
  The steps. An event names the goroutine that moves (a worker by its index) and the
  statement it executes; \<open>Dispatch i\<close> is the feeder's send received by worker \<open>i\<close>,
  \<open>Report i\<close> the send of worker \<open>i\<close> received by the coordinator, \<open>Success\<close> the
  observer's send received by the coordinator.
\<close>

datatype event =
    FeederNext
  | Dispatch nat
  | RangeEnd nat
  | Poll nat
  | Attempt nat
  | Wake nat
  | Report nat
  | CloseResult nat
  | SendClosed nat
  | CloseAbort
  | RecvClosed
  | WaitDone
  | Success

text \<open>The feeder at the head of its loop: leave (closing the queue) at the end of the
  slice or on abort, else assign the path and go on to the send.\<close>

definition feederNext :: "hlsDownloader \<Rightarrow> pipeline \<Rightarrow> pipeline option" where
  "feederNext h s =
     (case feeder s of
        FLoop k \<Rightarrow>
          if k < length (segs s) then
            (if isAbort s then Some (s\<lparr>segmentsClosed := True, feeder := FDone\<rparr>)
             else Some (s\<lparr>segs := (segs s)[k := assignPath h (segs s ! k)], feeder := FSend k\<rparr>))
          else Some (s\<lparr>segmentsClosed := True, feeder := FDone\<rparr>)
      | _ \<Rightarrow> None)"

text \<open>The feeder's send meets the receive of a worker waiting at its range loop.\<close>

definition dispatch :: "pipeline \<Rightarrow> nat \<Rightarrow> pipeline option" where
  "dispatch s i =
     (case (feeder s, workers s ! i) of
        (FSend k, WRange) \<Rightarrow>
          Some (s\<lparr>feeder := FLoop (Suc k), workers := (workers s)[i := WCheck (segs s ! k) 0]\<rparr>)
      | _ \<Rightarrow> None)"

text \<open>A worker's range loop ends when the queue is closed; the worker returns and the
  deferred \<open>wc.wg.Done()\<close> runs.\<close>

definition rangeEnd :: "pipeline \<Rightarrow> nat \<Rightarrow> pipeline option" where
  "rangeEnd s i =
     (case workers s ! i of
        WRange \<Rightarrow>
          if segmentsClosed s then Some (s\<lparr>workers := (workers s)[i := WDone], wg := wg s - 1\<rparr>)
          else None
      | _ \<Rightarrow> None)"

definition poll :: "pipeline \<Rightarrow> nat \<Rightarrow> pipeline option" where
  "poll s i =
     (case workers s ! i of
        WCheck segment attempts \<Rightarrow>
          Some (s\<lparr>workers := (workers s)[i := if isAbort s then WClose else WAttempt segment attempts]\<rparr>)
      | _ \<Rightarrow> None)"

text \<open>One call of \<open>downloadSegment\<close> and the statements after it, up to the send or the
  sleep.\<close>

definition attempt :: "hlsDownloader \<Rightarrow> env \<Rightarrow> pipeline \<Rightarrow> nat \<Rightarrow> pipeline option" where
  "attempt h e s i =
     (case workers s ! i of
        WAttempt segment attempts \<Rightarrow>
          (case downloadSegment h e segment (world_of s) of
             (None, w') \<Rightarrow>
               Some (s\<lparr>world_of := w',
                       workers := (workers s)[i := WSend \<lparr>err = None, seqId = SeqId segment\<rparr>]\<rparr>)
           | (Some x, w') \<Rightarrow>
               if connectionReset x \<and> attempts < maxAttempts then
                 Some (s\<lparr>world_of := w',
                         workers := (workers s)[i := WSleep segment (attempts + 1) time_Second]\<rparr>)
               else
                 Some (s\<lparr>world_of := w',
                         workers := (workers s)[i := WSend \<lparr>err = Some x, seqId = SeqId segment\<rparr>]\<rparr>))
      | _ \<Rightarrow> None)"

definition wake :: "pipeline \<Rightarrow> nat \<Rightarrow> pipeline option" where
  "wake s i =
     (case workers s ! i of
        WSleep segment attempts d \<Rightarrow> Some (s\<lparr>workers := (workers s)[i := WCheck segment attempts]\<rparr>)
      | _ \<Rightarrow> None)"

text \<open>A worker's send meets the coordinator's receive. The worker breaks out of the inner
  loop and is back at the range loop; the coordinator goes on to close \<open>wc.abort\<close> if the
  result has an error, and else increments the bar, if there is one, and selects again.\<close>

definition report :: "hlsDownloader \<Rightarrow> pipeline \<Rightarrow> nat \<Rightarrow> pipeline option" where
  "report h s i =
     (case workers s ! i of
        WSend result \<Rightarrow>
          if coordinator s = CSelect \<and> \<not> resultClosed s then
            (case err result of
               Some x \<Rightarrow> Some (s\<lparr>workers := (workers s)[i := WRange], coordinator := CAbort x\<rparr>)
             | None \<Rightarrow>
                 Some (s\<lparr>workers := (workers s)[i := WRange],
                         bar := (if h_bar h then bar s + 1 else bar s)\<rparr>))
          else None
      | _ \<Rightarrow> None)"

text \<open>A worker that saw the abort closes \<open>wc.downloadResult\<close> and returns; closing a
  closed channel panics. A worker blocked in a send on a channel that is closed panics.\<close>

definition closeResult :: "pipeline \<Rightarrow> nat \<Rightarrow> pipeline option" where
  "closeResult s i =
     (case workers s ! i of
        WClose \<Rightarrow>
          if resultClosed s then Some (s\<lparr>panicked := Some CloseOfClosedChannel\<rparr>)
          else Some (s\<lparr>resultClosed := True, workers := (workers s)[i := WDone], wg := wg s - 1\<rparr>)
      | _ \<Rightarrow> None)"

definition sendClosed :: "pipeline \<Rightarrow> nat \<Rightarrow> pipeline option" where
  "sendClosed s i =
     (case workers s ! i of
        WSend result \<Rightarrow> if resultClosed s then Some (s\<lparr>panicked := Some SendOnClosedChannel\<rparr>) else None
      | _ \<Rightarrow> None)"

definition closeAbort :: "pipeline \<Rightarrow> pipeline option" where
  "closeAbort s =
     (case coordinator s of
        CAbort x \<Rightarrow>
          if abort s then Some (s\<lparr>panicked := Some CloseOfClosedChannel\<rparr>)
          else Some (s\<lparr>abort := True, coordinator := CReturn (Some x)\<rparr>)
      | _ \<Rightarrow> None)"

text \<open>A receive from the closed \<open>wc.downloadResult\<close> yields a nil result, and
  \<open>result.err\<close> panics.\<close>

definition recvClosed :: "pipeline \<Rightarrow> pipeline option" where
  "recvClosed s =
     (if coordinator s = CSelect \<and> resultClosed s then Some (s\<lparr>panicked := Some NilDereference\<rparr>)
      else None)"

definition waitDone :: "pipeline \<Rightarrow> pipeline option" where
  "waitDone s = (if observer s = OWait \<and> wg s = 0 then Some (s\<lparr>observer := OSend\<rparr>) else None)"

definition success :: "pipeline \<Rightarrow> pipeline option" where
  "success s =
     (if observer s = OSend \<and> coordinator s = CSelect
      then Some (s\<lparr>observer := ODone, coordinator := CReturn None\<rparr>)
      else None)"

text \<open>The worker an event belongs to.\<close>

fun actor :: "event \<Rightarrow> nat option" where
  "actor (Dispatch i) = Some i"
| "actor (RangeEnd i) = Some i"
| "actor (Poll i) = Some i"
| "actor (Attempt i) = Some i"
| "actor (Wake i) = Some i"
| "actor (Report i) = Some i"
| "actor (CloseResult i) = Some i"
| "actor (SendClosed i) = Some i"
| "actor ev = None"

text \<open>One step: nothing moves after a panic; a worker's event needs the worker to exist.\<close>

definition step :: "hlsDownloader \<Rightarrow> env \<Rightarrow> pipeline \<Rightarrow> event \<Rightarrow> pipeline option" where
  "step h e s ev =
     (if panicked s \<noteq> None then None
      else if (case actor ev of Some i \<Rightarrow> length (workers s) \<le> i | None \<Rightarrow> False) then None
      else
        (case ev of
           FeederNext \<Rightarrow> feederNext h s
         | Dispatch i \<Rightarrow> dispatch s i
         | RangeEnd i \<Rightarrow> rangeEnd s i
         | Poll i \<Rightarrow> poll s i
         | Attempt i \<Rightarrow> attempt h e s i
         | Wake i \<Rightarrow> wake s i
         | Report i \<Rightarrow> report h s i
         | CloseResult i \<Rightarrow> closeResult s i
         | SendClosed i \<Rightarrow> sendClosed s i
         | CloseAbort \<Rightarrow> closeAbort s
         | RecvClosed \<Rightarrow> recvClosed s
         | WaitDone \<Rightarrow> waitDone s
         | Success \<Rightarrow> success s))"

fun run :: "hlsDownloader \<Rightarrow> env \<Rightarrow> pipeline \<Rightarrow> event list \<Rightarrow> pipeline option" where
  "run h e s [] = Some s"
| "run h e s (ev # evs) = (case step h e s ev of None \<Rightarrow> None | Some s' \<Rightarrow> run h e s' evs)"

text \<open>
  The state in which \<open>processSegments\<close> has made the channels and started the goroutines:
  \<^verbatim>\<open>
      for i := 0; i < h.workers; i++ {
          wc.wg.Add(1)
          go h.downloadSegments(wc)
      }
      go h.prepareSegments(segments, wc)
      go func() { wc.wg.Wait(); wc.success <- struct{}{} }()
  \<close>
\<close>

definition initial :: "hlsDownloader \<Rightarrow> segment list \<Rightarrow> world \<Rightarrow> pipeline" where
  "initial h segments w =
     \<lparr>world_of = w, segs = segments, abort = False, segmentsClosed = False, resultClosed = False,
      wg = nat (h_workers h), coordinator = CSelect, feeder = FLoop 0,
      workers = replicate (nat (h_workers h)) WRange, observer = OWait, bar = 0, panicked = None\<rparr>"

text \<open>
  \<open>processSegments\<close> under a schedule, the list of steps the goroutines take: it returns
  what the coordinator returns, together with the segments and the world as they are at
  the end of the schedule. A schedule may go on after the coordinator's return: these are
  the steps that the goroutines still running take before the caller goes on. Where the
  schedule does not bring the coordinator to its return, or a goroutine panics,
  \<open>processSegments\<close> does not return.
\<close>

definition processSegments ::
  "hlsDownloader \<Rightarrow> env \<Rightarrow> segment list \<Rightarrow> event list \<Rightarrow> world \<Rightarrow>
     (error option \<times> segment list \<times> world) option" where
  "processSegments h e segments sched w =
     (case run h e (initial h segments w) sched of
        None \<Rightarrow> None
      | Some s \<Rightarrow>
          (case (panicked s, coordinator s) of
             (None, CReturn r) \<Rightarrow> Some (r, segs s, world_of s)
           | _ \<Rightarrow> None))"

section \<open>The top-level call\<close>

text \<open>
  \<^verbatim>\<open>
  func (h *hlsDownloader) Download() (string, error) {
      if h == nil { return "", errors.New("instance is nil") }
      segments, err := parseHLSSegments(h.url, h.header)
      if err != nil { return "", err }
      err = os.MkdirAll(h.path, os.ModePerm)
      if err != nil { return "", err }
      h.tmpDir, err = os.MkdirTemp("", "*-segments")
      if err != nil { return "", err }
      defer os.RemoveAll(h.tmpDir)
      err = h.processSegments(segments)
      if err != nil { return "", err }
      filepath, err := h.join(segments)
      if err != nil { return "", err }
      return filepath, nil
  }
  \<close>
  \<open>afterDefer\<close> is the body from the \<open>defer\<close> statement on. The deferred call runs when
  the body returns and also when it panics. A nil receiver is \<open>None\<close>.
\<close>

definition afterDefer ::
  "hlsDownloader \<Rightarrow> env \<Rightarrow> segment list \<Rightarrow> event list \<Rightarrow> world \<Rightarrow> ((fault + string) \<times> world) option" where
  "afterDefer h e segments sched w =
     (case processSegments h e segments sched w of
        None \<Rightarrow> None
      | Some (Some x, segments', w') \<Rightarrow> Some (Inl (Err x), w')
      | Some (None, segments', w') \<Rightarrow> Some (join h e segments' w'))"

definition Download ::
  "hlsDownloader option \<Rightarrow> env \<Rightarrow> event list \<Rightarrow> world \<Rightarrow> ((fault + string) \<times> world) option" where
  "Download ho e sched w =
     (case ho of
        None \<Rightarrow> Some (Inl (Err ''instance is nil''), w)
      | Some h \<Rightarrow>
          (case parseHLSSegments e (h_url h) (h_header h) w of
             (Inl x, w1) \<Rightarrow> Some (Inl (Err x), w1)
           | (Inr segments, w1) \<Rightarrow>
               (case os_MkdirAll w1 (h_path h) of
                  Inl x \<Rightarrow> Some (Inl (Err x), w1)
                | Inr w2 \<Rightarrow>
                    (case os_MkdirTemp e w2 of
                       Inl x \<Rightarrow> Some (Inl (Err x), w2)
                     | Inr (tmp, w3) \<Rightarrow>
                         (case afterDefer (h\<lparr>h_tmpDir := tmp\<rparr>) e segments sched w3 of
                            None \<Rightarrow> None
                          | Some (r, w4) \<Rightarrow> Some (r, snd (os_RemoveAll w4 tmp)))))))"

section \<open>Notions for stating the join property\<close>

text \<open>
  \<open>serves e h s raw\<close>: whenever the downloader asks for segment \<open>s\<close>, the network
  answers 200 with the body \<open>raw\<close>. \<open>decryptsTo e h s raw p\<close>: in every world whose
  staging file of \<open>s\<close> holds \<open>raw\<close>, \<open>decrypt\<close> yields \<open>p\<close>, the decrypted and
  sync-trimmed payload of the segment. \<open>downloadAll\<close> downloads segments one after the
  other in the order of the list.
\<close>

definition serves :: "env \<Rightarrow> hlsDownloader \<Rightarrow> segment \<Rightarrow> byte list \<Rightarrow> bool" where
  "serves e h s raw \<longleftrightarrow>
     url_Parse e (URI s) = None \<and>
     (\<forall>n. \<exists>res.
        transport e n \<lparr>Via = h_client h, Method = ''GET'', URL = URI s, Header = h_header h\<rparr> = Inr res \<and>
        StatusCode res = 200 \<and> Body res = raw \<and> BodyErr res = None)"

definition decryptsTo :: "env \<Rightarrow> hlsDownloader \<Rightarrow> segment \<Rightarrow> byte list \<Rightarrow> byte list \<Rightarrow> bool" where
  "decryptsTo e h s raw p \<longleftrightarrow>
     (\<forall>v. files v (path s) = Some raw \<longrightarrow> path s \<notin> dirs v \<longrightarrow>
          fst (decrypt e s (h_client h) v) = Inr p)"

definition downloadAll :: "hlsDownloader \<Rightarrow> env \<Rightarrow> segment list \<Rightarrow> world \<Rightarrow> world" where
  "downloadAll h e order w = foldl (\<lambda>v s. snd (downloadSegment h e s v)) w order"

section \<open>Notions for stating the pipeline's properties\<close>

text \<open>
  A run is given by its schedule, the list of events. \<open>workerEvents i tr\<close> are the events
  of worker \<open>i\<close> in \<open>tr\<close>, in order, and \<open>lastOpt\<close> is the last element of a list, if
  there is one. \<open>mayFollow i prev ev\<close> says which event \<open>ev\<close> of worker \<open>i\<close> may come
  directly after its event \<open>prev\<close> (\<open>None\<close>: the worker has not moved yet): it is the
  control flow of \<open>downloadSegments\<close> read off the code.
\<close>

definition workerEvents :: "nat \<Rightarrow> event list \<Rightarrow> event list" where
  "workerEvents i tr = filter (\<lambda>ev. actor ev = Some i) tr"

definition lastOpt :: "'a list \<Rightarrow> 'a option" where
  "lastOpt xs = (if xs = [] then None else Some (last xs))"

fun mayFollow :: "nat \<Rightarrow> event option \<Rightarrow> event \<Rightarrow> bool" where
  "mayFollow i None ev = (ev = Dispatch i \<or> ev = RangeEnd i)"
| "mayFollow i (Some (Dispatch j)) ev = (ev = Poll i)"
| "mayFollow i (Some (Poll j)) ev = (ev = Attempt i \<or> ev = CloseResult i)"
| "mayFollow i (Some (Attempt j)) ev = (ev = Wake i \<or> ev = Report i \<or> ev = SendClosed i)"
| "mayFollow i (Some (Wake j)) ev = (ev = Poll i)"
| "mayFollow i (Some (Report j)) ev = (ev = Dispatch i \<or> ev = RangeEnd i)"
| "mayFollow i (Some other) ev = False"

text \<open>
  \<open>afterAbort tr\<close> is the part of the run from the closing of \<open>wc.abort\<close> on, and
  \<open>lateDispatches tr\<close> the number of segments handed to a worker in that part.
\<close>

definition afterAbort :: "event list \<Rightarrow> event list" where
  "afterAbort tr = dropWhile (\<lambda>ev. ev \<noteq> CloseAbort) tr"

fun isDispatch :: "event \<Rightarrow> bool" where
  "isDispatch (Dispatch i) = True"
| "isDispatch ev = False"

definition lateDispatches :: "event list \<Rightarrow> nat" where
  "lateDispatches tr = length (filter isDispatch (afterAbort tr))"

text \<open>
  \<open>sinceDispatch i tr\<close> is the part of the run since worker \<open>i\<close> last took a segment from
  the queue; \<open>retries\<close> counts the retry sleeps that ended in it and \<open>tries\<close> the download
  attempts.
\<close>

definition sinceDispatch :: "nat \<Rightarrow> event list \<Rightarrow> event list" where
  "sinceDispatch i tr = rev (takeWhile (\<lambda>ev. ev \<noteq> Dispatch i) (rev tr))"

definition retries :: "nat \<Rightarrow> event list \<Rightarrow> nat" where
  "retries i tr = length (filter (\<lambda>ev. ev = Wake i) (sinceDispatch i tr))"

definition tries :: "nat \<Rightarrow> event list \<Rightarrow> nat" where
  "tries i tr = length (filter (\<lambda>ev. ev = Attempt i) (sinceDispatch i tr))"

text \<open>
  The invariants of the proofs. \<open>goodState\<close>: the abort signal is set exactly when the
  coordinator has returned an error, and nothing that follows from a set signal (a closed
  result channel, a panic, a worker about to close the result channel) occurs without it.
  \<open>pcAfter\<close>: where a worker stands after its last event. \<open>feederInv\<close>: a feeder blocked
  in its send has dispatched nothing since the abort. \<open>retryInv\<close>: the worker's variable
  \<open>attempts\<close> counts the retries and the attempts made on the current segment.
\<close>

definition goodState :: "pipeline \<Rightarrow> bool" where
  "goodState s \<longleftrightarrow>
     (abort s \<longleftrightarrow> (\<exists>x. coordinator s = CReturn (Some x))) \<and>
     (resultClosed s \<longrightarrow> abort s) \<and>
     (panicked s \<noteq> None \<longrightarrow> abort s) \<and>
     (\<forall>i < length (workers s). workers s ! i = WClose \<longrightarrow> abort s)"

fun pcAfter :: "event option \<Rightarrow> workerPc \<Rightarrow> bool" where
  "pcAfter None pc = (pc = WRange)"
| "pcAfter (Some (Dispatch j)) pc = (\<exists>seg. pc = WCheck seg 0)"
| "pcAfter (Some (Poll j)) pc = (pc = WClose \<or> (\<exists>seg a. pc = WAttempt seg a))"
| "pcAfter (Some (Attempt j)) pc = ((\<exists>seg a d. pc = WSleep seg a d) \<or> (\<exists>r. pc = WSend r))"
| "pcAfter (Some (Wake j)) pc = (\<exists>seg a. pc = WCheck seg a)"
| "pcAfter (Some (Report j)) pc = (pc = WRange)"
| "pcAfter (Some other) pc = (pc = WDone)"

definition feederInv :: "event list \<Rightarrow> pipeline \<Rightarrow> bool" where
  "feederInv tr s \<longleftrightarrow>
     (CloseAbort \<in> set tr \<longleftrightarrow> abort s) \<and>
     (case feeder s of FSend k \<Rightarrow> lateDispatches tr = 0 | _ \<Rightarrow> lateDispatches tr \<le> 1)"

fun retryInv :: "nat \<Rightarrow> nat \<Rightarrow> workerPc \<Rightarrow> bool" where
  "retryInv r t (WCheck seg a) = (r = a \<and> t = a \<and> a \<le> maxAttempts)"
| "retryInv r t (WAttempt seg a) = (r = a \<and> t = a \<and> a \<le> maxAttempts)"
| "retryInv r t (WSleep seg a d) = (Suc r = a \<and> t = a \<and> a \<le> maxAttempts \<and> d = time_Second)"
| "retryInv r t pc = (r \<le> maxAttempts \<and> t \<le> Suc maxAttempts)"

section \<open>A concrete scenario\<close>

text \<open>
  A small closed world for evaluating the model: a downloader with a client and a header
  of the caller's, a staging directory, one plain and two encrypted segments. The network
  answers the request for the manifest with a playlist of two segments, the first of them
  at an address that does not answer. It answers the request for the plain segment with
  four bytes, the one for an encrypted segment with one block, the key request with a
  16-byte key, one address with a status 500 whose text reads like a connection reset,
  one with a connection reset and everything else with another error. The cipher stand-in
  returns its input.
\<close>

definition demoHeader :: header where
  "demoHeader = [(''Authorization'', ''token'')]"

definition demoDownloader :: hlsDownloader where
  "demoDownloader =
     \<lparr>h_url = ''http://host/list.m3u8'', h_output = ''/out/video.ts'', h_path = ''/out'',
      h_filename = ''video.ts'', h_extension = ''.ts'', h_tmpDir = ''/tmp/1-segments'',
      h_client = Client 1, h_header = demoHeader, h_workers = 1, h_bar = False\<rparr>"

definition demoKey :: key where
  "demoKey = \<lparr>KeyURI = ''http://host/key'', KeyIV = ''''\<rparr>"

definition demoPlain :: segment where
  "demoPlain = \<lparr>SeqId = 0, URI = ''http://host/a.ts'', Key = None, path = ''/tmp/1-segments/seg0.ts''\<rparr>"

definition demoSecret :: segment where
  "demoSecret = \<lparr>SeqId = 1, URI = ''http://host/b.ts'', Key = Some demoKey, path = ''/tmp/1-segments/seg1.ts''\<rparr>"

definition demoSecretIV :: segment where
  "demoSecretIV =
     \<lparr>SeqId = 2, URI = ''http://host/b.ts'',
      Key = Some \<lparr>KeyURI = ''http://host/key'', KeyIV = ''0123456789abcdef''\<rparr>,
      path = ''/tmp/1-segments/seg2.ts''\<rparr>"

definition demoTransport :: "nat \<Rightarrow> request \<Rightarrow> error + response" where
  "demoTransport n r =
     (if URL r = ''http://host/list.m3u8''
      then Inr \<lparr>StatusCode = 200, Status = ''200 OK'', Body = bytes ''#EXTM3U'', BodyErr = None\<rparr>
      else if URL r = ''http://host/key''
      then Inr \<lparr>StatusCode = 200, Status = ''200 OK'', Body = [1, 1, 1, 1, 1, 1, 1, 1, 1, 1, 1, 1, 1, 1, 1, 1], BodyErr = None\<rparr>
      else if URL r = ''http://host/a.ts''
      then Inr \<lparr>StatusCode = 200, Status = ''200 OK'', Body = [9, 71, 5, 6], BodyErr = None\<rparr>
      else if URL r = ''http://host/b.ts''
      then Inr \<lparr>StatusCode = 200, Status = ''200 OK'',
                Body = [8, 71, 7, 7, 7, 7, 7, 7, 7, 7, 7, 7, 4, 4, 4, 4], BodyErr = None\<rparr>
      else if URL r = ''http://host/flaky.ts''
      then Inr \<lparr>StatusCode = 500, Status = ''500 connection reset by peer'', Body = [], BodyErr = None\<rparr>
      else if URL r = ''http://host/reset.ts''
      then Inl ''read tcp 10.0.0.2:443: read: connection reset by peer''
      else Inl ''connection refused'')"

definition demoPlaylist :: playlist where
  "demoPlaylist =
     Media [Some \<lparr>SeqId = 0, URI = ''http://host/missing.ts'', Key = None\<rparr>, None,
            Some \<lparr>SeqId = 1, URI = ''http://host/a.ts'', Key = None\<rparr>] None"

definition demoEnv :: env where
  "demoEnv =
     \<lparr>transport = demoTransport, url_Parse = (\<lambda>u. None), url_Resolve = (\<lambda>b r. Inr r),
      m3u8_DecodeFrom = (\<lambda>b. Inr demoPlaylist), aes_CBCDecrypt = (\<lambda>k iv src. src),
      os_TempDir = ''/tmp'', randomNames = [''1'', ''2'']\<rparr>"

definition demoWorld :: world where
  "demoWorld =
     \<lparr>files = [''/tmp/1-segments/seg0.ts'' \<mapsto> [1, 2, 3]], dirs = {''/tmp'', ''/tmp/1-segments'', ''/out''},
      requests = []\<rparr>"

definition demoRaw :: "segment \<Rightarrow> byte list" where
  "demoRaw s =
     (if URI s = ''http://host/a.ts'' then [9, 71, 5, 6]
      else [8, 71, 7, 7, 7, 7, 7, 7, 7, 7, 7, 7, 4, 4, 4, 4])"

definition demoPayload :: "segment \<Rightarrow> byte list" where
  "demoPayload s =
     (if URI s = ''http://host/a.ts'' then [71, 5, 6]
      else [71, 7, 7, 7, 7, 7, 7, 7, 7, 7, 7])"

text \<open>Descriptors as the manifest yields them, with no path yet, and a schedule of one
  worker in which the first download fails for good.\<close>

definition demoBad :: segment where
  "demoBad = \<lparr>SeqId = 0, URI = ''http://host/missing.ts'', Key = None, path = []\<rparr>"

definition demoNext :: segment where
  "demoNext = \<lparr>SeqId = 1, URI = ''http://host/a.ts'', Key = None, path = []\<rparr>"

definition demoFlaky :: segment where
  "demoFlaky = \<lparr>SeqId = 0, URI = ''http://host/flaky.ts'', Key = None, path = []\<rparr>"

definition demoReset :: segment where
  "demoReset = \<lparr>SeqId = 0, URI = ''http://host/reset.ts'', Key = None, path = []\<rparr>"

definition demoAbortSchedule :: "event list" where
  "demoAbortSchedule =
     [FeederNext, Dispatch 0, FeederNext, Poll 0, Attempt 0, Report 0, CloseAbort, Dispatch 0]"

definition demoStopSchedule :: "event list" where
  "demoStopSchedule = demoAbortSchedule @ [Poll 0, CloseResult 0]"

definition demoRetrySchedule :: "event list" where
  "demoRetrySchedule =
     [FeederNext, Dispatch 0, Poll 0, Attempt 0, Wake 0, Poll 0, Attempt 0, Wake 0, Poll 0,
      Attempt 0, Wake 0, Poll 0]"

section \<open>Properties of the padding removal\<close>

lemma last_index_conv: "origData \<noteq> [] \<Longrightarrow> origData ! nat (int (length origData) - 1) = last origData"
  by (simp add: last_conv_nth nat_diff_distrib')

text \<open>
  Claim C5. For every non-empty buffer whose last byte has the value \<open>n\<close> with
  \<open>n \<le> length\<close>, \<open>pkcs5UnPadding\<close> returns the buffer without its last \<open>n\<close> bytes: the
  result is the prefix of length \<open>length - n\<close>, and the buffer is that prefix followed by
  exactly \<open>n\<close> further bytes.
\<close>

theorem pkcs5UnPadding_removes_last_n:
  assumes "origData \<noteq> []"
    and "unat (last origData) = n"
    and "n \<le> length origData"
  shows "\<exists>kept removed. pkcs5UnPadding origData = Inr kept \<and> origData = kept @ removed \<and>
           length removed = n \<and> kept = take (length origData - n) origData"
proof -
  let ?len = "int (length origData)"
  have idx: "origData ! nat (?len - 1) = last origData"
    using assms(1) by (rule last_index_conv)
  have pad: "uint (last origData) = int n"
    using assms(2) by (metis uint_nat)
  have pos: "0 \<le> ?len - 1 \<and> ?len - 1 < ?len"
    using assms(1) by (cases origData) simp_all
  have k: "nat (?len - int n) = length origData - n"
    by (simp add: nat_diff_distrib')
  have res: "pkcs5UnPadding origData = Inr (take (length origData - n) origData)"
    using pos assms(3) by (simp add: pkcs5UnPadding_def Let_def idx pad k)
  have split: "origData = take (length origData - n) origData @ drop (length origData - n) origData"
    by simp
  have len: "length (drop (length origData - n) origData) = n"
    using assms(3) by simp
  from res split len show ?thesis by blast
qed

theorem pkcs5UnPadding_removes_last_n_witness:
  "\<exists>kept removed. pkcs5UnPadding [0x47, 0x10, 0x02, 0x02 :: byte] = Inr kept \<and>
     [0x47, 0x10, 0x02, 0x02 :: byte] = kept @ removed \<and> length removed = 2 \<and>
     kept = [0x47, 0x10]"
  using pkcs5UnPadding_removes_last_n [of "[0x47, 0x10, 0x02, 0x02 :: byte]" 2] by simp

text \<open>
  Claim C9. \<open>pkcs5UnPadding\<close> is partial: it panics (out-of-range index or slice bound)
  exactly on the empty buffer and on a buffer whose last byte exceeds the buffer's length;
  on every other buffer it returns a result. So a caller has to supply a non-empty buffer
  whose last byte is at most its length.
\<close>

theorem pkcs5UnPadding_partial:
  "(\<exists>p. pkcs5UnPadding origData = Inl p) \<longleftrightarrow>
     (origData = [] \<or> length origData < unat (last origData))"
proof (cases "origData = []")
  case True
  then show ?thesis by (simp add: pkcs5UnPadding_def)
next
  case False
  let ?len = "int (length origData)"
  have idx: "origData ! nat (?len - 1) = last origData"
    using False by (rule last_index_conv)
  have pos: "0 \<le> ?len - 1 \<and> ?len - 1 < ?len"
    using False by (cases origData) simp_all
  have "(?len - uint (last origData) < 0) = (length origData < unat (last origData))"
    unfolding uint_nat by linarith
  with False pos show ?thesis
    by (auto simp add: pkcs5UnPadding_def Let_def idx)
qed

theorem pkcs5UnPadding_partial_witness:
  "pkcs5UnPadding [] = Inl (IndexOutOfRange (- 1) 0) \<and>
   pkcs5UnPadding [0x01, 0x09 :: byte] = Inl (SliceBoundsOutOfRange (- 7)) \<and>
   (\<exists>p. pkcs5UnPadding [0x01, 0x09 :: byte] = Inl p)"
  using pkcs5UnPadding_partial [of "[0x01, 0x09 :: byte]"]
  by (simp add: pkcs5UnPadding_def)

section \<open>Properties of the scan for the sync byte\<close>

lemma syncScan_no_sync: "syncByte \<notin> set (drop j data) \<Longrightarrow> syncScan data j = data"
proof (induction data j rule: syncScan.induct)
  case (1 data j)
  show ?case
  proof (cases "j < length data")
    case True
    then have "data ! j \<in> set (drop j data)"
      by (metis Cons_nth_drop_Suc list.set_intros(1))
    with "1.prems" have ne: "data ! j \<noteq> syncByte" by auto
    have "set (drop (Suc j) data) \<subseteq> set (drop j data)"
      by (simp add: set_drop_subset_set_drop)
    with "1.prems" have "syncByte \<notin> set (drop (Suc j) data)" by blast
    with "1.IH" True ne have "syncScan data (Suc j) = data" by simp
    with True ne show ?thesis by (simp add: syncScan.simps [of data j])
  next
    case False
    then show ?thesis by (simp add: syncScan.simps [of data j])
  qed
qed

lemma syncScan_dropWhile:
  "j \<le> length data \<Longrightarrow> syncByte \<in> set (drop j data) \<Longrightarrow>
   syncScan data j = dropWhile (\<lambda>b. b \<noteq> syncByte) (drop j data)"
proof (induction data j rule: syncScan.induct)
  case (1 data j)
  from "1.prems" have lt: "j < length data" by (cases "j = length data") auto
  have dj: "drop j data = data ! j # drop (Suc j) data"
    using lt by (simp add: Cons_nth_drop_Suc)
  show ?case
  proof (cases "data ! j = syncByte")
    case True
    with lt show ?thesis by (simp add: syncScan.simps [of data j] dj)
  next
    case False
    with "1.prems" dj have "syncByte \<in> set (drop (Suc j) data)" by auto
    with "1.IH" lt False have "syncScan data (Suc j) = dropWhile (\<lambda>b. b \<noteq> syncByte) (drop (Suc j) data)"
      by simp
    with lt False show ?thesis by (simp add: syncScan.simps [of data j] dj)
  qed
qed

text \<open>
  Claim C10. Where the payload (decrypted, if the segment has a key) holds no sync byte
  0x47, \<open>decrypt\<close> returns it unchanged, with no error and not cut down to nothing;
  where it holds one, exactly the bytes before the first sync byte are dropped.
\<close>

theorem decrypt_sync_scan:
  assumes "decryptPayload e segment c w = (Inr data, w')"
  shows "(syncByte \<notin> set data \<longrightarrow> decrypt e segment c w = (Inr data, w')) \<and>
         (syncByte \<in> set data \<longrightarrow>
            decrypt e segment c w = (Inr (dropWhile (\<lambda>b. b \<noteq> syncByte) data), w'))"
  using assms syncScan_no_sync [of 0 data] syncScan_dropWhile [of 0 data]
  by (simp add: decrypt_def)

lemma demo_payload: "decryptPayload demoEnv demoPlain (Client 1) demoWorld = (Inr [1, 2, 3], demoWorld)"
  by (simp add: decryptPayload_def demoPlain_def demoWorld_def os_Open_def io_ReadAll_def)

theorem decrypt_sync_scan_witness:
  "decryptPayload demoEnv demoPlain (Client 1) demoWorld = (Inr [1, 2, 3], demoWorld) \<and>
   syncByte \<notin> set [1, 2, 3 :: byte] \<and>
   decrypt demoEnv demoPlain (Client 1) demoWorld = (Inr [1, 2, 3], demoWorld)"
  using decrypt_sync_scan [OF demo_payload] demo_payload
  by (simp add: syncByte_def)

section \<open>Properties of the IV and of the transport\<close>

lemma byte_bit:
  "bit (push_bit k (ucast (ucast (drop_bit k (s :: 64 word)) :: byte)) :: 64 word) n =
     (k \<le> n \<and> n < k + 8 \<and> n < 64 \<and> bit s n)"
  by (auto simp add: bit_simps)

lemma byte_bit0:
  "bit (ucast (ucast (s :: 64 word) :: byte) :: 64 word) n = (n < 8 \<and> bit s n)"
  by (auto simp add: bit_simps)

lemma PutUint64_bytes:
  "PutUint64 (replicate 8 0) s =
     [ucast (drop_bit 56 s), ucast (drop_bit 48 s), ucast (drop_bit 40 s), ucast (drop_bit 32 s),
      ucast (drop_bit 24 s), ucast (drop_bit 16 s), ucast (drop_bit 8 s), ucast s]"
  by (simp add: PutUint64_def numeral_eq_Suc)

lemma Uint64_PutUint64: "Uint64 (PutUint64 (replicate 8 0) s) = s"
  (is "?u = s")
proof (rule bit_word_eqI)
  fix n :: nat
  assume "n < LENGTH(64)"
  then have n: "n < 64" by simp
  have e: "?u = ucast (ucast s :: byte) OR push_bit 8 (ucast (ucast (drop_bit 8 s) :: byte)) OR
      push_bit 16 (ucast (ucast (drop_bit 16 s) :: byte)) OR push_bit 24 (ucast (ucast (drop_bit 24 s) :: byte)) OR
      push_bit 32 (ucast (ucast (drop_bit 32 s) :: byte)) OR push_bit 40 (ucast (ucast (drop_bit 40 s) :: byte)) OR
      push_bit 48 (ucast (ucast (drop_bit 48 s) :: byte)) OR push_bit 56 (ucast (ucast (drop_bit 56 s) :: byte))"
    unfolding PutUint64_bytes by (simp add: Uint64_def)
  have "bit ?u n = ((n < 8 \<or> (8 \<le> n \<and> n < 16) \<or> (16 \<le> n \<and> n < 24) \<or> (24 \<le> n \<and> n < 32) \<or>
      (32 \<le> n \<and> n < 40) \<or> (40 \<le> n \<and> n < 48) \<or> (48 \<le> n \<and> n < 56) \<or> (56 \<le> n \<and> n < 64)) \<and> bit s n)"
    unfolding e bit_or_iff byte_bit byte_bit0 using n by auto
  moreover have "n < 8 \<or> (8 \<le> n \<and> n < 16) \<or> (16 \<le> n \<and> n < 24) \<or> (24 \<le> n \<and> n < 32) \<or>
      (32 \<le> n \<and> n < 40) \<or> (40 \<le> n \<and> n < 48) \<or> (48 \<le> n \<and> n < 56) \<or> (56 \<le> n \<and> n < 64)"
    using n by linarith
  ultimately show "bit ?u n = bit s n"
    by simp
qed

lemma defaultIV_eq: "defaultIV s = replicate 8 0 @ PutUint64 (replicate 8 0) s"
  by (simp add: defaultIV_def)

lemma length_PutUint64: "length (PutUint64 b s) = length b"
  by (simp add: PutUint64_def)

lemma defaultIV_props:
  "length (defaultIV s) = 16 \<and> take 8 (defaultIV s) = replicate 8 0 \<and>
   length (drop 8 (defaultIV s)) = 8 \<and> Uint64 (drop 8 (defaultIV s)) = s"
  by (simp add: defaultIV_eq length_PutUint64 Uint64_PutUint64)

lemma getKey_Inr:
  assumes "getKey e segment c w = (Inr (kb, iv), w')" and "Key segment = Some k"
  shows "iv = (if length (bytes (KeyIV k)) = 0 then defaultIV (SeqId segment) else bytes (KeyIV k))"
  using assms
  by (auto simp add: getKey_def Let_def split: prod.splits sum.splits if_splits)

text \<open>
  Claim C4. Where \<open>getKey\<close> succeeds for an encrypted segment: an explicit IV of the
  descriptor is returned as it is; without one, the IV is 16 bytes long, its first (high)
  8 bytes are zero and its last (low) 8 bytes decode, big-endian, to the segment's
  \<open>SeqId\<close>. A 16-byte IV is handed to the cipher by \<open>decryptAES128\<close> as it is.
\<close>

theorem getKey_iv:
  assumes "getKey e segment c w = (Inr (kb, iv), w')" and "Key segment = Some k"
  shows "(KeyIV k \<noteq> [] \<longrightarrow> iv = bytes (KeyIV k)) \<and>
         (KeyIV k = [] \<longrightarrow>
            length iv = 16 \<and> take 8 iv = replicate 8 0 \<and> length (drop 8 iv) = 8 \<and>
            Uint64 (drop 8 iv) = SeqId segment) \<and>
         (length iv = 16 \<longrightarrow> length kb \<in> {16, 24, 32} \<longrightarrow> length data mod 16 = 0 \<longrightarrow>
            decryptAES128 e data kb iv =
              (case pkcs5UnPadding (aes_CBCDecrypt e kb iv data) of
                 Inl p \<Rightarrow> Inl (Panic p) | Inr d \<Rightarrow> Inr d))"
proof (intro conjI impI)
  assume "KeyIV k \<noteq> []"
  then show "iv = bytes (KeyIV k)"
    using getKey_Inr [OF assms] by (simp add: bytes_def)
next
  assume "KeyIV k = []"
  then have iv: "iv = defaultIV (SeqId segment)"
    using getKey_Inr [OF assms] by (simp add: bytes_def)
  show "length iv = 16" "take 8 iv = replicate 8 0" "length (drop 8 iv) = 8"
    "Uint64 (drop 8 iv) = SeqId segment"
    unfolding iv using defaultIV_props [of "SeqId segment"] by blast+
next
  assume "length iv = 16" "length kb \<in> {16, 24, 32}" "length data mod 16 = 0"
  then show "decryptAES128 e data kb iv =
              (case pkcs5UnPadding (aes_CBCDecrypt e kb iv data) of
                 Inl p \<Rightarrow> Inl (Panic p) | Inr d \<Rightarrow> Inr d)"
    by (simp add: decryptAES128_def Let_def)
qed

lemma demo_getKey:
  "getKey demoEnv demoSecret (Client 1) demoWorld =
     (Inr ([1, 1, 1, 1, 1, 1, 1, 1, 1, 1, 1, 1, 1, 1, 1, 1], [0, 0, 0, 0, 0, 0, 0, 0, 0, 0, 0, 0, 0, 0, 0, 1]),
      demoWorld\<lparr>requests := [\<lparr>Via = Client 1, Method = ''GET'', URL = ''http://host/key'', Header = []\<rparr>]\<rparr>)"
  by (simp add: getKey_def demoSecret_def demoKey_def client_Get_def http_NewRequest_def demoEnv_def
      client_Do_def Let_def demoTransport_def body_ReadAll_def bytes_def demoWorld_def
      defaultIV_eq PutUint64_def numeral_eq_Suc)

lemma demo_getKeyIV:
  "getKey demoEnv demoSecretIV (Client 1) demoWorld =
     (Inr ([1, 1, 1, 1, 1, 1, 1, 1, 1, 1, 1, 1, 1, 1, 1, 1], bytes ''0123456789abcdef''),
      demoWorld\<lparr>requests := [\<lparr>Via = Client 1, Method = ''GET'', URL = ''http://host/key'', Header = []\<rparr>]\<rparr>)"
  by (simp add: getKey_def demoSecretIV_def client_Get_def http_NewRequest_def demoEnv_def
      client_Do_def Let_def demoTransport_def body_ReadAll_def bytes_def demoWorld_def)

lemma demo_unpad:
  "pkcs5UnPadding [4, 4, 4, 4, 4, 4, 4, 4, 4, 4, 4, 4, 4, 4, 4, 4] = Inr [4, 4, 4, 4, 4, 4, 4, 4, 4, 4, 4, 4]"
  by (simp add: pkcs5UnPadding_def)

theorem getKey_iv_witness:
  "getKey demoEnv demoSecret (Client 1) demoWorld =
     (Inr ([1, 1, 1, 1, 1, 1, 1, 1, 1, 1, 1, 1, 1, 1, 1, 1], [0, 0, 0, 0, 0, 0, 0, 0, 0, 0, 0, 0, 0, 0, 0, 1]),
      demoWorld\<lparr>requests := [\<lparr>Via = Client 1, Method = ''GET'', URL = ''http://host/key'', Header = []\<rparr>]\<rparr>) \<and>
   Key demoSecret = Some demoKey \<and> KeyIV demoKey = [] \<and>
   Uint64 (drop 8 [0, 0, 0, 0, 0, 0, 0, 0, 0, 0, 0, 0, 0, 0, 0, 1]) = SeqId demoSecret \<and>
   decryptAES128 demoEnv [4, 4, 4, 4, 4, 4, 4, 4, 4, 4, 4, 4, 4, 4, 4, 4]
       [1, 1, 1, 1, 1, 1, 1, 1, 1, 1, 1, 1, 1, 1, 1, 1] [0, 0, 0, 0, 0, 0, 0, 0, 0, 0, 0, 0, 0, 0, 0, 1] =
     Inr [4, 4, 4, 4, 4, 4, 4, 4, 4, 4, 4, 4] \<and>
   getKey demoEnv demoSecretIV (Client 1) demoWorld =
     (Inr ([1, 1, 1, 1, 1, 1, 1, 1, 1, 1, 1, 1, 1, 1, 1, 1], bytes ''0123456789abcdef''),
      demoWorld\<lparr>requests := [\<lparr>Via = Client 1, Method = ''GET'', URL = ''http://host/key'', Header = []\<rparr>]\<rparr>) \<and>
   decryptAES128 demoEnv [4, 4, 4, 4, 4, 4, 4, 4, 4, 4, 4, 4, 4, 4, 4, 4]
       [1, 1, 1, 1, 1, 1, 1, 1, 1, 1, 1, 1, 1, 1, 1, 1] (bytes ''0123456789abcdef'') =
     Inr [4, 4, 4, 4, 4, 4, 4, 4, 4, 4, 4, 4]"
proof -
  note a = getKey_iv [OF demo_getKey, of demoKey "[4, 4, 4, 4, 4, 4, 4, 4, 4, 4, 4, 4, 4, 4, 4, 4]"]
  note b = getKey_iv [OF demo_getKeyIV,
      of "\<lparr>KeyURI = ''http://host/key'', KeyIV = ''0123456789abcdef''\<rparr>"
         "[4, 4, 4, 4, 4, 4, 4, 4, 4, 4, 4, 4, 4, 4, 4, 4]"]
  have k: "Key demoSecret = Some demoKey" "KeyIV demoKey = []"
    "Key demoSecretIV = Some \<lparr>KeyURI = ''http://host/key'', KeyIV = ''0123456789abcdef''\<rparr>"
    by (simp_all add: demoSecret_def demoKey_def demoSecretIV_def)
  have cipher: "aes_CBCDecrypt demoEnv k iv src = src" for k iv src
    by (simp add: demoEnv_def)
  have s: "SeqId demoSecret = 1" by (simp add: demoSecret_def)
  from a k have "Uint64 (drop 8 [0, 0, 0, 0, 0, 0, 0, 0, 0, 0, 0, 0, 0, 0, 0, 1]) = SeqId demoSecret"
    by simp
  moreover from a k have "decryptAES128 demoEnv [4, 4, 4, 4, 4, 4, 4, 4, 4, 4, 4, 4, 4, 4, 4, 4]
       [1, 1, 1, 1, 1, 1, 1, 1, 1, 1, 1, 1, 1, 1, 1, 1] [0, 0, 0, 0, 0, 0, 0, 0, 0, 0, 0, 0, 0, 0, 0, 1] =
     Inr [4, 4, 4, 4, 4, 4, 4, 4, 4, 4, 4, 4]"
    by (simp add: cipher demo_unpad)
  moreover from b k have "decryptAES128 demoEnv [4, 4, 4, 4, 4, 4, 4, 4, 4, 4, 4, 4, 4, 4, 4, 4]
       [1, 1, 1, 1, 1, 1, 1, 1, 1, 1, 1, 1, 1, 1, 1, 1] (bytes ''0123456789abcdef'') =
     Inr [4, 4, 4, 4, 4, 4, 4, 4, 4, 4, 4, 4]"
    by (simp add: cipher demo_unpad bytes_def)
  ultimately show ?thesis
    using demo_getKey demo_getKeyIV k by simp
qed

text \<open>
  Claim C7, evaluated on a downloader whose client and header were set by the caller: the
  manifest is fetched through \<open>http.DefaultClient\<close> (with the caller's header), the key
  through the caller's client but with no header of the caller's, and only the segment
  through the caller's client with the caller's header.
\<close>

theorem transport_per_fetch:
  "requests (snd (getM3u8ListType demoEnv (h_url demoDownloader) (h_header demoDownloader) demoWorld)) =
     [\<lparr>Via = DefaultClient, Method = ''GET'', URL = ''http://host/list.m3u8'', Header = demoHeader\<rparr>] \<and>
   requests (snd (getKey demoEnv demoSecret (h_client demoDownloader) demoWorld)) =
     [\<lparr>Via = Client 1, Method = ''GET'', URL = ''http://host/key'', Header = []\<rparr>] \<and>
   requests (snd (downloadSegment demoDownloader demoEnv demoSecret demoWorld)) =
     [\<lparr>Via = Client 1, Method = ''GET'', URL = ''http://host/b.ts'', Header = demoHeader\<rparr>] \<and>
   h_client demoDownloader = Client 1 \<and> h_header demoDownloader = demoHeader \<and> demoHeader \<noteq> []"
  by (simp add: getM3u8ListType_def newRequest_def http_NewRequest_def demoEnv_def client_Do_def
      Let_def demoTransport_def demoDownloader_def demoWorld_def getKey_def demoSecret_def
      demoKey_def client_Get_def body_ReadAll_def bytes_def downloadSegment_def os_Create_def
      parentDir_def file_Write_def demoHeader_def)

section \<open>Staging paths are distinct and flat\<close>

lemma of_char_digit: "d < 10 \<Longrightarrow> of_char (digit d) = 48 + d"
  by (simp add: digit_def)

lemma digit_not_slash: "d < 10 \<Longrightarrow> digit d \<noteq> CHR ''/''"
proof
  assume d: "d < 10" and "digit d = CHR ''/''"
  then have "(of_char (digit d) :: nat) = of_char CHR ''/''" by simp
  with d show False by (simp add: of_char_digit)
qed

lemma slash_notin_decimal: "CHR ''/'' \<notin> set (decimal n)"
proof (induction n rule: decimal.induct)
  case (1 n)
  show ?case
  proof (cases "n < 10")
    case True
    then show ?thesis using digit_not_slash [of n] by (simp add: decimal.simps [of n])
  next
    case False
    have "n mod 10 < 10" by simp
    then have "digit (n mod 10) \<noteq> CHR ''/''" by (rule digit_not_slash)
    with False "1.IH" show ?thesis by (auto simp add: decimal.simps [of n])
  qed
qed

lemma decval_decimal: "decval (decimal n) = n"
proof (induction n rule: decimal.induct)
  case (1 n)
  show ?case
  proof (cases "n < 10")
    case True
    then show ?thesis by (simp add: decimal.simps [of n] decval_def of_char_digit)
  next
    case False
    have m: "n mod 10 < 10" by simp
    from False "1.IH" have "decval (decimal (n div 10)) = n div 10" by simp
    with False show ?thesis
      by (simp add: decimal.simps [of n] decval_def of_char_digit [OF m])
  qed
qed

lemma decimal_inj: "decimal m = decimal n \<Longrightarrow> m = n"
  by (metis decval_decimal)

lemma segName_inj: "segName a = segName b \<Longrightarrow> a = b"
  by (auto simp add: segName_def word_unat_eq_iff dest!: decimal_inj)

lemma slash_notin_segName: "CHR ''/'' \<notin> set (segName a)"
  by (simp add: segName_def slash_notin_decimal)

lemma parentDir_Join: "CHR ''/'' \<notin> set name \<Longrightarrow> parentDir (filepath_Join d name) = d"
proof -
  assume n: "CHR ''/'' \<notin> set name"
  have "dropWhile (\<lambda>c. c \<noteq> CHR ''/'') (rev name @ CHR ''/'' # rev d) = CHR ''/'' # rev d"
    using n by (auto simp add: dropWhile_append3)
  then show ?thesis by (simp add: parentDir_def filepath_Join_def)
qed

lemma inDir_Join: "inDir (filepath_Join d name) q \<Longrightarrow> inDir d q"
  by (auto simp add: inDir_def filepath_Join_def prefix_def)

lemma inDir_Join_Join:
  assumes "CHR ''/'' \<notin> set n2" and "inDir (filepath_Join d n1) (filepath_Join d n2)"
  shows "n1 = n2"
proof -
  from assms(2) consider "n2 = n1" | "prefix (n1 @ ''/'') n2"
    by (auto simp add: inDir_def filepath_Join_def)
  then show ?thesis
  proof cases
    case 1 then show ?thesis by simp
  next
    case 2
    then have "CHR ''/'' \<in> set n2" by (auto simp add: prefix_def)
    with assms(1) show ?thesis by simp
  qed
qed

lemma decimal_0: "decimal 0 = ''0''" and decimal_1: "decimal 1 = ''1''"
  by code_simp+

section \<open>What downloading and decrypting change in the world\<close>

lemma client_Do_frame:
  "files (snd (client_Do e c req w)) = files w \<and> dirs (snd (client_Do e c req w)) = dirs w"
  by (simp add: client_Do_def Let_def)

lemma client_Get_frame:
  "files (snd (client_Get e c u w)) = files w \<and> dirs (snd (client_Get e c u w)) = dirs w"
  by (simp add: client_Get_def client_Do_frame split: sum.splits)

lemma getKey_frame:
  "files (snd (getKey e s c w)) = files w \<and> dirs (snd (getKey e s c w)) = dirs w"
proof (cases "Key s")
  case None
  then show ?thesis by (simp add: getKey_def)
next
  case (Some k)
  obtain r w' where g: "client_Get e c (KeyURI k) w = (r, w')" by (cases "client_Get e c (KeyURI k) w")
  with client_Get_frame [of e c "KeyURI k" w] have f: "files w' = files w" "dirs w' = dirs w" by simp_all
  show ?thesis
    using Some g f by (simp add: getKey_def Let_def split: sum.splits)
qed

lemma decryptPayload_frame:
  "files (snd (decryptPayload e s c w)) = files w \<and> dirs (snd (decryptPayload e s c w)) = dirs w"
proof (cases "os_Open w (path s)")
  case (Inl x)
  then show ?thesis by (simp add: decryptPayload_def)
next
  case (Inr fh)
  note o = this
  show ?thesis
  proof (cases "io_ReadAll w fh")
    case (Inl x)
    with o show ?thesis by (simp add: decryptPayload_def)
  next
    case (Inr data)
    note rd = this
    show ?thesis
    proof (cases "Key s")
      case None
      with o rd show ?thesis by (simp add: decryptPayload_def)
    next
      case (Some k)
      obtain r w' where g: "getKey e s c w = (r, w')" by (cases "getKey e s c w")
      with getKey_frame [of e s c w] have f: "files w' = files w" "dirs w' = dirs w" by simp_all
      show ?thesis
      proof (cases r)
        case (Inl fl)
        with o rd Some g f show ?thesis by (simp add: decryptPayload_def)
      next
        case (Inr kv)
        obtain kb iv where kv: "kv = (kb, iv)" by (cases kv)
        show ?thesis
          using o rd Some g f Inr kv
          by (cases "decryptAES128 e data kb iv") (simp_all add: decryptPayload_def)
      qed
    qed
  qed
qed

lemma decrypt_frame:
  "files (snd (decrypt e s c w)) = files w \<and> dirs (snd (decrypt e s c w)) = dirs w"
proof -
  obtain r w' where g: "decryptPayload e s c w = (r, w')" by (cases "decryptPayload e s c w")
  with decryptPayload_frame [of e s c w] have f: "files w' = files w" "dirs w' = dirs w" by simp_all
  show ?thesis using g f by (cases r) (simp_all add: decrypt_def)
qed

lemma downloadSegment_served:
  assumes "serves e h s raw" and "parentDir (path s) \<in> dirs w" and "path s \<notin> dirs w"
  shows "files (snd (downloadSegment h e s w)) = (files w)(path s \<mapsto> raw) \<and>
         dirs (snd (downloadSegment h e s w)) = dirs w \<and> fst (downloadSegment h e s w) = None"
proof -
  let ?rq = "\<lparr>Via = h_client h, Method = ''GET'', URL = URI s, Header = h_header h\<rparr>"
  from assms(1) have p: "url_Parse e (URI s) = None" by (simp add: serves_def)
  from assms(1) obtain res where
    t: "transport e (length (requests w)) ?rq = Inr res" and
    r: "StatusCode res = 200" "Body res = raw" "BodyErr res = None"
    unfolding serves_def by blast
  have n: "newRequest e (URI s) (h_header h) = Inr \<lparr>Via = DefaultClient, Method = ''GET'', URL = URI s, Header = h_header h\<rparr>"
    using p by (simp add: newRequest_def http_NewRequest_def)
  have d: "client_Do e (h_client h) \<lparr>Via = DefaultClient, Method = ''GET'', URL = URI s, Header = h_header h\<rparr> w =
      (Inr res, w\<lparr>requests := requests w @ [?rq]\<rparr>)"
    using t by (simp add: client_Do_def Let_def)
  show ?thesis
    using assms(2,3) r by (simp add: downloadSegment_def n d os_Create_def file_Write_def)
qed

lemma downloadAll_snoc:
  "downloadAll h e (xs @ [x]) w = snd (downloadSegment h e x (downloadAll h e xs w))"
  by (simp add: downloadAll_def)

lemma downloadAll_staged:
  assumes "\<forall>s\<in>set order. serves e h s (raw s) \<and> parentDir (path s) \<in> dirs w \<and> path s \<notin> dirs w"
    and "\<forall>s\<in>set order. \<forall>t\<in>set order. path s = path t \<longrightarrow> raw s = raw t"
  shows "dirs (downloadAll h e order w) = dirs w \<and>
         (\<forall>s\<in>set order. files (downloadAll h e order w) (path s) = Some (raw s))"
  using assms
proof (induction order rule: rev_induct)
  case Nil
  show ?case by (simp add: downloadAll_def)
next
  case (snoc x xs)
  let ?v = "downloadAll h e xs w"
  have sub: "s \<in> set (xs @ [x])" if "s \<in> set xs" for s using that by simp
  have xin: "x \<in> set (xs @ [x])" by simp
  from snoc.prems(1) sub
  have pre: "\<forall>s\<in>set xs. serves e h s (raw s) \<and> parentDir (path s) \<in> dirs w \<and> path s \<notin> dirs w"
    by blast
  from snoc.prems(2) sub
  have inj: "\<forall>s\<in>set xs. \<forall>t\<in>set xs. path s = path t \<longrightarrow> raw s = raw t"
    by blast
  from snoc.IH [OF pre inj] have dv: "dirs ?v = dirs w"
    and fv: "\<forall>s\<in>set xs. files ?v (path s) = Some (raw s)" by blast+
  from snoc.prems(1) xin have "serves e h x (raw x) \<and> parentDir (path x) \<in> dirs w \<and> path x \<notin> dirs w"
    by blast
  then have x: "serves e h x (raw x)" "parentDir (path x) \<in> dirs ?v" "path x \<notin> dirs ?v"
    unfolding dv by blast+
  let ?v' = "downloadAll h e (xs @ [x]) w"
  from downloadSegment_served [OF x]
  have sf: "files ?v' = (files ?v)(path x \<mapsto> raw x)" and sd: "dirs ?v' = dirs ?v"
    by (simp_all add: downloadAll_snoc)
  have "\<forall>s\<in>set (xs @ [x]). files ?v' (path s) = Some (raw s)"
  proof
    fix s assume s: "s \<in> set (xs @ [x])"
    show "files ?v' (path s) = Some (raw s)"
    proof (cases "path s = path x")
      case True
      with snoc.prems(2) s xin have "raw s = raw x" by blast
      with True show ?thesis unfolding sf by simp
    next
      case False
      with s have "s \<in> set xs" by auto
      with fv have "files ?v (path s) = Some (raw s)" by blast
      with False show ?thesis unfolding sf by simp
    qed
  qed
  moreover have "dirs ?v' = dirs w" using sd dv by (rule trans)
  ultimately show ?case by (rule conjI [rotated])
qed

lemma joinLoop_concat:
  assumes "distinct ss"
    and "\<forall>s\<in>set ss. files v (path s) = Some (raw s) \<and> path s \<notin> dirs v \<and>
           decryptsTo e h s (raw s) (payload s)"
    and "\<forall>s\<in>set ss. \<not> inDir (path s) (h_output h)"
    and "\<forall>s\<in>set ss. \<forall>t\<in>set ss. inDir (path s) (path t) \<longrightarrow> s = t"
    and "files v (h_output h) = Some acc"
  shows "\<exists>v'. joinLoop h e ss v = (None, v') \<and>
           files v' (h_output h) = Some (acc @ concat (map payload ss))"
  using assms
proof (induction ss arbitrary: v acc)
  case Nil
  then show ?case by simp
next
  case (Cons s rest)
  obtain r v1 where d: "decrypt e s (h_client h) v = (r, v1)" by (cases "decrypt e s (h_client h) v")
  from Cons.prems(2) have fs: "files v (path s) = Some (raw s)" "path s \<notin> dirs v"
    and dt: "decryptsTo e h s (raw s) (payload s)" by simp_all
  from dt fs d have r: "r = Inr (payload s)" by (auto simp add: decryptsTo_def)
  from decrypt_frame [of e s "h_client h" v] d have f1: "files v1 = files v" "dirs v1 = dirs v"
    by simp_all
  let ?v2 = "v1\<lparr>files := (files v1)(h_output h \<mapsto> acc @ payload s)\<rparr>"
  have w: "file_Write v1 (h_output h) (payload s) = (None, ?v2)"
    using Cons.prems(5) f1 by (simp add: file_Write_def)
  let ?v3 = "?v2\<lparr>files := (\<lambda>q. if inDir (path s) q then None else files ?v2 q),
                  dirs := {q \<in> dirs ?v2. \<not> inDir (path s) q}\<rparr>"
  have rm: "os_RemoveAll ?v2 (path s) = (None, ?v3)" by (simp add: os_RemoveAll_def)
  have out: "files ?v3 (h_output h) = Some (acc @ payload s)"
    using Cons.prems(3) by simp
  have rest: "\<forall>t\<in>set rest. files ?v3 (path t) = Some (raw t) \<and> path t \<notin> dirs ?v3 \<and>
           decryptsTo e h t (raw t) (payload t)"
  proof
    fix t assume t: "t \<in> set rest"
    with Cons.prems(1) have "s \<noteq> t" by auto
    with Cons.prems(4) t have nu: "\<not> inDir (path s) (path t)" by auto
    have "\<not> inDir (path t) (h_output h)" using Cons.prems(3) t by simp
    then have "path t \<noteq> h_output h" by (auto simp add: inDir_def)
    with nu t Cons.prems(2) f1 show "files ?v3 (path t) = Some (raw t) \<and> path t \<notin> dirs ?v3 \<and>
           decryptsTo e h t (raw t) (payload t)"
      by simp
  qed
  from Cons.prems have "distinct rest" "\<forall>t\<in>set rest. \<not> inDir (path t) (h_output h)"
    "\<forall>a\<in>set rest. \<forall>b\<in>set rest. inDir (path a) (path b) \<longrightarrow> a = b" by simp_all
  from Cons.IH [OF this(1) rest this(2) this(3) out]
  obtain v' where "joinLoop h e rest ?v3 = (None, v')"
    "files v' (h_output h) = Some ((acc @ payload s) @ concat (map payload rest))" by blast
  then show ?case
    using d r by (simp add: w rm)
qed

section \<open>The join writes the payloads in ascending order\<close>

lemma assignPath_fields:
  "SeqId (assignPath h d) = SeqId d \<and>
   path (assignPath h d) = filepath_Join (h_tmpDir h) (segName (SeqId d))"
  by (simp add: assignPath_def)

text \<open>
  Claim C1. Take descriptors with pairwise distinct sequence numbers, staged at the
  paths the feeder assigns, and download them one after the other in any order
  (\<open>order\<close> is any permutation). Then \<open>join\<close> succeeds and the output file holds
  exactly the payloads (decrypted and sync-trimmed, as \<open>decrypt\<close> yields them) one after
  the other, each segment once, in strictly ascending order of the sequence number; the
  order of the downloads does not occur in the result.
\<close>

theorem join_sorted_concat:
  fixes raw payload :: "segment \<Rightarrow> byte list"
  assumes ids: "distinct (map SeqId descs)"
    and staged: "staged = map (assignPath h) descs"
    and ord: "mset order = mset staged"
    and tmp: "h_tmpDir h \<in> dirs w"
    and nodir: "\<forall>s\<in>set staged. path s \<notin> dirs w"
    and outdir: "parentDir (h_output h) \<in> dirs w"
    and outfile: "h_output h \<notin> dirs w"
    and outside: "\<not> inDir (h_tmpDir h) (h_output h)"
    and served: "\<forall>s\<in>set staged. serves e h s (raw s)"
    and dec: "\<forall>s\<in>set staged. decryptsTo e h s (raw s) (payload s)"
  shows "\<exists>w'. join h e staged (downloadAll h e order w) = (Inr (h_output h), w') \<and>
           files w' (h_output h) = Some (concat (map payload (sort_key SeqId staged))) \<and>
           mset (sort_key SeqId staged) = mset staged \<and>
           sorted_wrt (<) (map SeqId (sort_key SeqId staged))"
proof -
  have pth: "path s = filepath_Join (h_tmpDir h) (segName (SeqId s))" if "s \<in> set staged" for s
    using that unfolding staged by (auto simp add: assignPath_fields)
  have "map SeqId staged = map SeqId descs"
    unfolding staged by (simp add: assignPath_fields)
  with ids have dm: "distinct (map SeqId staged)" by simp
  then have dsegs: "distinct staged" and inj: "inj_on SeqId (set staged)"
    by (simp_all add: distinct_map)
  have nonest: "s = t" if "s \<in> set staged" "t \<in> set staged" "inDir (path s) (path t)" for s t
  proof -
    from that have "inDir (filepath_Join (h_tmpDir h) (segName (SeqId s)))
        (filepath_Join (h_tmpDir h) (segName (SeqId t)))"
      by (simp add: pth)
    then have "segName (SeqId s) = segName (SeqId t)"
      by (rule inDir_Join_Join [OF slash_notin_segName])
    then have "SeqId s = SeqId t" by (rule segName_inj)
    with inj that(1,2) show ?thesis by (auto dest: inj_onD)
  qed
  have notout: "\<not> inDir (path s) (h_output h)" if "s \<in> set staged" for s
    using that outside inDir_Join [of "h_tmpDir h" "segName (SeqId s)" "h_output h"]
    by (auto simp add: pth)
  have par: "parentDir (path s) \<in> dirs w" if "s \<in> set staged" for s
    using that tmp by (simp add: pth parentDir_Join [OF slash_notin_segName])
  have so: "set order = set staged" using ord by (rule mset_eq_setD)
  let ?v = "downloadAll h e order w"
  have a1: "\<forall>s\<in>set order. serves e h s (raw s) \<and> parentDir (path s) \<in> dirs w \<and> path s \<notin> dirs w"
    unfolding so using served par nodir by blast
  have uu: "inDir p p" for p by (simp add: inDir_def)
  have a2: "\<forall>s\<in>set order. \<forall>t\<in>set order. path s = path t \<longrightarrow> raw s = raw t"
    unfolding so using nonest uu by metis
  from downloadAll_staged [OF a1 a2]
  have dv: "dirs ?v = dirs w" and fv: "\<forall>s\<in>set staged. files ?v (path s) = Some (raw s)"
    unfolding so by blast+
  let ?vc = "?v\<lparr>files := (files ?v)(h_output h \<mapsto> [])\<rparr>"
  have cr: "os_Create ?v (h_output h) = Inr ?vc"
    using outdir outfile by (simp add: os_Create_def dv)
  let ?ss = "sort_key SeqId staged"
  have b1: "distinct ?ss" using dsegs by simp
  have neq: "path s \<noteq> h_output h" if "s \<in> set staged" for s
    using notout [OF that] uu [of "path s"] by auto
  have b2: "\<forall>s\<in>set ?ss. files ?vc (path s) = Some (raw s) \<and> path s \<notin> dirs ?vc \<and>
           decryptsTo e h s (raw s) (payload s)"
  proof
    fix s assume "s \<in> set ?ss"
    then have s: "s \<in> set staged" by simp
    from fv s have "files ?v (path s) = Some (raw s)" by blast
    moreover from nodir s have "path s \<notin> dirs w" by blast
    moreover from dec s have "decryptsTo e h s (raw s) (payload s)" by blast
    ultimately show "files ?vc (path s) = Some (raw s) \<and> path s \<notin> dirs ?vc \<and>
           decryptsTo e h s (raw s) (payload s)"
      using neq [OF s] by (simp add: dv)
  qed
  have b3: "\<forall>s\<in>set ?ss. \<not> inDir (path s) (h_output h)"
    using notout by simp
  have b4: "\<forall>s\<in>set ?ss. \<forall>t\<in>set ?ss. inDir (path s) (path t) \<longrightarrow> s = t"
    using nonest by simp
  have b5: "files ?vc (h_output h) = Some []" by simp
  from joinLoop_concat [OF b1 b2 b3 b4 b5]
  obtain v' where j: "joinLoop h e ?ss ?vc = (None, v')"
    and f: "files v' (h_output h) = Some ([] @ concat (map payload ?ss))" by blast
  have res: "join h e staged ?v = (Inr (h_output h), v')"
    by (simp add: join_def cr j)
  have "mset (map SeqId ?ss) = mset (map SeqId staged)" by simp
  with dm have "distinct (map SeqId ?ss)" by (metis mset_eq_imp_distinct_iff)
  moreover have "sorted (map SeqId ?ss)" by simp
  ultimately have asc: "sorted_wrt (<) (map SeqId ?ss)" by (simp add: strict_sorted_iff)
  from res f asc show ?thesis by simp
qed

lemma decimal_2: "decimal 2 = ''2''"
  by code_simp

lemma decimal_Suc0: "decimal (Suc 0) = ''1''"
  by code_simp

lemma demo_assign:
  "assignPath demoDownloader demoPlain = demoPlain"
  "assignPath demoDownloader demoSecret = demoSecret"
  "assignPath demoDownloader demoSecretIV = demoSecretIV"
  by (simp_all add: assignPath_def demoDownloader_def demoPlain_def demoSecret_def demoSecretIV_def
      filepath_Join_def segName_def decimal_0 decimal_1 decimal_2 decimal_Suc0)

lemma demo_serves:
  "serves demoEnv demoDownloader demoPlain (demoRaw demoPlain)"
  "serves demoEnv demoDownloader demoSecret (demoRaw demoSecret)"
  "serves demoEnv demoDownloader demoSecretIV (demoRaw demoSecretIV)"
  by (simp_all add: serves_def demoEnv_def demoTransport_def demoPlain_def demoSecret_def
      demoSecretIV_def demoRaw_def)

lemma demo_scan1: "syncScan [9, 71, 5, 6] 0 = [71, 5, 6]"
  by (simp add: syncScan.simps [of _ 0] syncScan.simps [of _ "Suc 0"] syncByte_def)

lemma demo_scan2:
  "syncScan [8, 71, 7, 7, 7, 7, 7, 7, 7, 7, 7, 7] 0 = [71, 7, 7, 7, 7, 7, 7, 7, 7, 7, 7]"
  by (simp add: syncScan.simps [of _ 0] syncScan.simps [of _ "Suc 0"] syncByte_def)

lemma demo_unpad2:
  "pkcs5UnPadding [8, 71, 7, 7, 7, 7, 7, 7, 7, 7, 7, 7, 4, 4, 4, 4] =
     Inr [8, 71, 7, 7, 7, 7, 7, 7, 7, 7, 7, 7]"
  by (simp add: pkcs5UnPadding_def)

lemma demo_aes:
  "length iv \<ge> 16 \<Longrightarrow>
   decryptAES128 demoEnv [8, 71, 7, 7, 7, 7, 7, 7, 7, 7, 7, 7, 4, 4, 4, 4]
     [1, 1, 1, 1, 1, 1, 1, 1, 1, 1, 1, 1, 1, 1, 1, 1] iv =
   Inr [8, 71, 7, 7, 7, 7, 7, 7, 7, 7, 7, 7]"
  by (simp add: decryptAES128_def demoEnv_def demo_unpad2)

lemma demo_decryptsTo_plain:
  "decryptsTo demoEnv demoDownloader demoPlain (demoRaw demoPlain) (demoPayload demoPlain)"
  by (simp add: decryptsTo_def decrypt_def decryptPayload_def os_Open_def io_ReadAll_def
      demoPlain_def demoRaw_def demoPayload_def demo_scan1 domIff)

lemma demoEnv_fields:
  "transport demoEnv = demoTransport" "url_Parse demoEnv u = None"
  "aes_CBCDecrypt demoEnv k iv src = src"
  by (simp_all add: demoEnv_def)

lemma demo_decryptsTo_secret:
  "decryptsTo demoEnv demoDownloader demoSecret (demoRaw demoSecret) (demoPayload demoSecret)"
proof -
  have iv: "length (defaultIV 1) \<ge> 16" by (simp add: defaultIV_def PutUint64_def)
  show ?thesis
    by (simp add: decryptsTo_def decrypt_def decryptPayload_def os_Open_def io_ReadAll_def
      demoSecret_def demoKey_def demoRaw_def demoPayload_def demo_scan2 domIff getKey_def
      client_Get_def http_NewRequest_def client_Do_def Let_def demoEnv_fields
      demoTransport_def body_ReadAll_def bytes_def demo_aes [OF iv] demoDownloader_def)
qed

lemma demo_decryptsTo_secretIV:
  "decryptsTo demoEnv demoDownloader demoSecretIV (demoRaw demoSecretIV) (demoPayload demoSecretIV)"
proof -
  have iv: "length (bytes ''0123456789abcdef'') \<ge> 16" by (simp add: bytes_def)
  have ne: "bytes ''0123456789abcdef'' \<noteq> []" by (simp add: bytes_def)
  show ?thesis
    by (simp add: ne decryptsTo_def decrypt_def decryptPayload_def os_Open_def io_ReadAll_def
      demoSecretIV_def demoRaw_def demoPayload_def demo_scan2 domIff getKey_def
      client_Get_def http_NewRequest_def client_Do_def Let_def demoEnv_fields
      demoTransport_def body_ReadAll_def demo_aes [OF iv] demoDownloader_def)
qed

lemma demo_sorted:
  "sort_key SeqId [demoSecret, demoSecretIV, demoPlain] = [demoPlain, demoSecret, demoSecretIV]"
  by (simp add: demoSecret_def demoSecretIV_def demoPlain_def)

theorem join_sorted_concat_witness:
  "\<exists>w'. join demoDownloader demoEnv [demoSecret, demoSecretIV, demoPlain]
          (downloadAll demoDownloader demoEnv [demoSecretIV, demoPlain, demoSecret] demoWorld) =
            (Inr ''/out/video.ts'', w') \<and>
        files w' ''/out/video.ts'' =
          Some ([71, 5, 6] @ [71, 7, 7, 7, 7, 7, 7, 7, 7, 7, 7] @ [71, 7, 7, 7, 7, 7, 7, 7, 7, 7, 7])"
proof -
  let ?descs = "[demoSecret, demoSecretIV, demoPlain]"
  have ids: "distinct (map SeqId ?descs)"
    by (simp add: demoSecret_def demoSecretIV_def demoPlain_def)
  have staged: "?descs = map (assignPath demoDownloader) ?descs"
    by (simp add: demo_assign)
  have ord: "mset [demoSecretIV, demoPlain, demoSecret] = mset ?descs"
    by (simp add: add.commute)
  have tmp: "h_tmpDir demoDownloader \<in> dirs demoWorld"
    by (simp add: demoDownloader_def demoWorld_def)
  have nodir: "\<forall>s\<in>set ?descs. path s \<notin> dirs demoWorld"
    by (simp add: demoSecret_def demoSecretIV_def demoPlain_def demoWorld_def)
  have outdir: "parentDir (h_output demoDownloader) \<in> dirs demoWorld"
    by (simp add: demoDownloader_def demoWorld_def parentDir_def)
  have outfile: "h_output demoDownloader \<notin> dirs demoWorld"
    by (simp add: demoDownloader_def demoWorld_def)
  have outside: "\<not> inDir (h_tmpDir demoDownloader) (h_output demoDownloader)"
    by (simp add: demoDownloader_def inDir_def)
  have served: "\<forall>s\<in>set ?descs. serves demoEnv demoDownloader s (demoRaw s)"
    by (simp add: demo_serves)
  have dec: "\<forall>s\<in>set ?descs. decryptsTo demoEnv demoDownloader s (demoRaw s) (demoPayload s)"
    by (simp add: demo_decryptsTo_plain demo_decryptsTo_secret demo_decryptsTo_secretIV)
  have out: "h_output demoDownloader = ''/out/video.ts''" by (simp add: demoDownloader_def)
  have pl: "map demoPayload [demoPlain, demoSecret, demoSecretIV] =
      [[71, 5, 6], [71, 7, 7, 7, 7, 7, 7, 7, 7, 7, 7], [71, 7, 7, 7, 7, 7, 7, 7, 7, 7, 7]]"
    by (simp add: demoPayload_def demoSecret_def demoSecretIV_def demoPlain_def)
  from join_sorted_concat [OF ids staged ord tmp nodir outdir outfile outside served dec]
  show ?thesis unfolding demo_sorted pl out by simp blast
qed

section \<open>Properties of the pipeline\<close>

lemmas step_defs = step_def feederNext_def dispatch_def rangeEnd_def poll_def attempt_def wake_def
  report_def closeResult_def sendClosed_def closeAbort_def recvClosed_def waitDone_def success_def
  isAbort_def

lemma demo_download_bad:
  "downloadSegment demoDownloader demoEnv (assignPath demoDownloader demoBad) w =
     (Some ''connection refused'',
      w\<lparr>requests := requests w @ [\<lparr>Via = Client 1, Method = ''GET'', URL = ''http://host/missing.ts'', Header = demoHeader\<rparr>]\<rparr>)"
  by (simp add: downloadSegment_def newRequest_def http_NewRequest_def demoEnv_fields client_Do_def
      Let_def demoTransport_def demoBad_def assignPath_def demoDownloader_def)

lemma no_reset: "\<not> connectionReset ''connection refused''"
  by (simp add: connectionReset_def)

lemma demo_abort_run:
  "run demoDownloader demoEnv (initial demoDownloader [demoBad, demoNext] demoWorld) demoAbortSchedule =
     Some \<lparr>world_of = demoWorld\<lparr>requests := [\<lparr>Via = Client 1, Method = ''GET'', URL = ''http://host/missing.ts'', Header = demoHeader\<rparr>]\<rparr>,
           segs = [assignPath demoDownloader demoBad, assignPath demoDownloader demoNext],
           abort = True, segmentsClosed = False, resultClosed = False, wg = 1,
           coordinator = CReturn (Some ''connection refused''), feeder = FLoop 2,
           workers = [WCheck (assignPath demoDownloader demoNext) 0], observer = OWait, bar = 0,
           panicked = None\<rparr>"
  by (simp add: demoAbortSchedule_def initial_def step_defs demo_download_bad no_reset
      demoDownloader_def [THEN arg_cong [where f = h_workers], simplified] demoWorld_def)

lemma run_append:
  "run h e s (xs @ ys) = (case run h e s xs of None \<Rightarrow> None | Some s' \<Rightarrow> run h e s' ys)"
  by (induction xs arbitrary: s) (simp_all split: option.splits)

lemma run_snoc:
  "run h e s (xs @ [ev]) = (case run h e s xs of None \<Rightarrow> None | Some s' \<Rightarrow> step h e s' ev)"
  by (simp add: run_append split: option.splits)

lemma run_snoc_Some:
  assumes "run h e s (xs @ [ev]) = Some s'"
  obtains s1 where "run h e s xs = Some s1" and "step h e s1 ev = Some s'"
  using assms by (auto simp add: run_snoc split: option.splits)

lemma run_split_Some:
  assumes "run h e s (xs @ ev # ys) = Some s'"
  obtains s1 s2 where "run h e s xs = Some s1" and "step h e s1 ev = Some s2"
    and "run h e s2 ys = Some s'"
  using assms by (auto simp add: run_append split: option.splits)

lemma step_cases [consumes 1, case_names FeederLeave FeederAssign Dispatched RangeEnded PollAbort
    PollGo AttemptOk AttemptRetry AttemptFail Woke ReportOk ReportErr ResultClosed ClosePanic
    SendPanic AbortClosed AbortPanic RecvPanic Waited Succeeded]:
  assumes "step h e s ev = Some s'"
  obtains
    (FeederLeave) k where "panicked s = None" "ev = FeederNext" "feeder s = FLoop k"
      "length (segs s) \<le> k \<or> abort s" "s' = s\<lparr>segmentsClosed := True, feeder := FDone\<rparr>"
  | (FeederAssign) k where "panicked s = None" "ev = FeederNext" "feeder s = FLoop k"
      "k < length (segs s)" "\<not> abort s"
      "s' = s\<lparr>segs := (segs s)[k := assignPath h (segs s ! k)], feeder := FSend k\<rparr>"
  | (Dispatched) i k where "panicked s = None" "ev = Dispatch i" "i < length (workers s)"
      "feeder s = FSend k" "workers s ! i = WRange"
      "s' = s\<lparr>feeder := FLoop (Suc k), workers := (workers s)[i := WCheck (segs s ! k) 0]\<rparr>"
  | (RangeEnded) i where "panicked s = None" "ev = RangeEnd i" "i < length (workers s)"
      "workers s ! i = WRange" "segmentsClosed s"
      "s' = s\<lparr>workers := (workers s)[i := WDone], wg := wg s - 1\<rparr>"
  | (PollAbort) i seg a where "panicked s = None" "ev = Poll i" "i < length (workers s)"
      "workers s ! i = WCheck seg a" "abort s" "s' = s\<lparr>workers := (workers s)[i := WClose]\<rparr>"
  | (PollGo) i seg a where "panicked s = None" "ev = Poll i" "i < length (workers s)"
      "workers s ! i = WCheck seg a" "\<not> abort s"
      "s' = s\<lparr>workers := (workers s)[i := WAttempt seg a]\<rparr>"
  | (AttemptOk) i seg a w' where "panicked s = None" "ev = Attempt i" "i < length (workers s)"
      "workers s ! i = WAttempt seg a" "downloadSegment h e seg (world_of s) = (None, w')"
      "s' = s\<lparr>world_of := w', workers := (workers s)[i := WSend \<lparr>err = None, seqId = SeqId seg\<rparr>]\<rparr>"
  | (AttemptRetry) i seg a x w' where "panicked s = None" "ev = Attempt i" "i < length (workers s)"
      "workers s ! i = WAttempt seg a" "downloadSegment h e seg (world_of s) = (Some x, w')"
      "connectionReset x" "a < maxAttempts"
      "s' = s\<lparr>world_of := w', workers := (workers s)[i := WSleep seg (a + 1) time_Second]\<rparr>"
  | (AttemptFail) i seg a x w' where "panicked s = None" "ev = Attempt i" "i < length (workers s)"
      "workers s ! i = WAttempt seg a" "downloadSegment h e seg (world_of s) = (Some x, w')"
      "\<not> (connectionReset x \<and> a < maxAttempts)"
      "s' = s\<lparr>world_of := w', workers := (workers s)[i := WSend \<lparr>err = Some x, seqId = SeqId seg\<rparr>]\<rparr>"
  | (Woke) i seg a d where "panicked s = None" "ev = Wake i" "i < length (workers s)"
      "workers s ! i = WSleep seg a d" "s' = s\<lparr>workers := (workers s)[i := WCheck seg a]\<rparr>"
  | (ReportOk) i r where "panicked s = None" "ev = Report i" "i < length (workers s)"
      "workers s ! i = WSend r" "err r = None" "coordinator s = CSelect" "\<not> resultClosed s"
      "s' = s\<lparr>workers := (workers s)[i := WRange], bar := (if h_bar h then bar s + 1 else bar s)\<rparr>"
  | (ReportErr) i r x where "panicked s = None" "ev = Report i" "i < length (workers s)"
      "workers s ! i = WSend r" "err r = Some x" "coordinator s = CSelect" "\<not> resultClosed s"
      "s' = s\<lparr>workers := (workers s)[i := WRange], coordinator := CAbort x\<rparr>"
  | (ResultClosed) i where "panicked s = None" "ev = CloseResult i" "i < length (workers s)"
      "workers s ! i = WClose" "\<not> resultClosed s"
      "s' = s\<lparr>resultClosed := True, workers := (workers s)[i := WDone], wg := wg s - 1\<rparr>"
  | (ClosePanic) i where "panicked s = None" "ev = CloseResult i" "i < length (workers s)"
      "workers s ! i = WClose" "resultClosed s" "s' = s\<lparr>panicked := Some CloseOfClosedChannel\<rparr>"
  | (SendPanic) i r where "panicked s = None" "ev = SendClosed i" "i < length (workers s)"
      "workers s ! i = WSend r" "resultClosed s" "s' = s\<lparr>panicked := Some SendOnClosedChannel\<rparr>"
  | (AbortClosed) x where "panicked s = None" "ev = CloseAbort" "coordinator s = CAbort x"
      "\<not> abort s" "s' = s\<lparr>abort := True, coordinator := CReturn (Some x)\<rparr>"
  | (AbortPanic) x where "panicked s = None" "ev = CloseAbort" "coordinator s = CAbort x"
      "abort s" "s' = s\<lparr>panicked := Some CloseOfClosedChannel\<rparr>"
  | (RecvPanic) "panicked s = None" "ev = RecvClosed" "coordinator s = CSelect" "resultClosed s"
      "s' = s\<lparr>panicked := Some NilDereference\<rparr>"
  | (Waited) "panicked s = None" "ev = WaitDone" "observer s = OWait" "wg s = 0"
      "s' = s\<lparr>observer := OSend\<rparr>"
  | (Succeeded) "panicked s = None" "ev = Success" "observer s = OSend" "coordinator s = CSelect"
      "s' = s\<lparr>observer := ODone, coordinator := CReturn None\<rparr>"
proof -
  from assms have np: "panicked s = None" by (simp add: step_def split: if_splits)
  show thesis
  proof (cases ev)
    case FeederNext
    with assms np show ?thesis
      using FeederLeave FeederAssign
      by (auto simp add: step_def feederNext_def isAbort_def split: if_splits feederPc.splits)
  next
    case (Dispatch i)
    with assms np show ?thesis
      using Dispatched
      by (auto simp add: step_def dispatch_def split: if_splits feederPc.splits workerPc.splits)
  next
    case (RangeEnd i)
    with assms np show ?thesis
      using RangeEnded
      by (auto simp add: step_def rangeEnd_def split: if_splits workerPc.splits)
  next
    case (Poll i)
    with assms np show ?thesis
      using PollAbort PollGo
      by (auto simp add: step_def poll_def isAbort_def split: if_splits workerPc.splits)
  next
    case (Attempt i)
    with assms np show ?thesis
      using AttemptOk AttemptRetry AttemptFail
      by (auto simp add: step_def attempt_def split: if_splits workerPc.splits prod.splits option.splits)
  next
    case (Wake i)
    with assms np show ?thesis
      using Woke
      by (auto simp add: step_def wake_def split: if_splits workerPc.splits)
  next
    case (Report i)
    with assms np show ?thesis
      using ReportOk ReportErr
      by (auto simp add: step_def report_def split: if_splits workerPc.splits option.splits)
  next
    case (CloseResult i)
    with assms np show ?thesis
      using ResultClosed ClosePanic
      by (auto simp add: step_def closeResult_def split: if_splits workerPc.splits)
  next
    case (SendClosed i)
    with assms np show ?thesis
      using SendPanic
      by (auto simp add: step_def sendClosed_def split: if_splits workerPc.splits)
  next
    case CloseAbort
    with assms np show ?thesis
      using AbortClosed AbortPanic
      by (auto simp add: step_def closeAbort_def split: if_splits coordinatorPc.splits)
  next
    case RecvClosed
    with assms np show ?thesis
      using RecvPanic
      by (auto simp add: step_def recvClosed_def split: if_splits)
  next
    case WaitDone
    with assms np show ?thesis
      using Waited
      by (auto simp add: step_def waitDone_def split: if_splits)
  next
    case Success
    with assms np show ?thesis
      using Succeeded
      by (auto simp add: step_def success_def split: if_splits)
  qed
qed

lemma goodState_initial: "goodState (initial h segments w)"
  by (simp add: goodState_def initial_def)

lemma goodState_step:
  assumes "step h e s ev = Some s'" and "goodState s"
  shows "goodState s'"
  using assms
  by (cases rule: step_cases) (auto simp add: goodState_def nth_list_update)

lemma abort_step_mono:
  assumes "step h e s ev = Some s'" and "abort s"
  shows "abort s'"
  using assms by (cases rule: step_cases) auto

lemma length_workers_step:
  assumes "step h e s ev = Some s'"
  shows "length (workers s') = length (workers s)"
  using assms by (cases rule: step_cases) auto

lemma reach_induct [consumes 1, case_names Start Step]:
  assumes "run h e s0 tr = Some s"
    and "P [] s0"
    and "\<And>tr s ev s'. run h e s0 tr = Some s \<Longrightarrow> P tr s \<Longrightarrow> step h e s ev = Some s' \<Longrightarrow> P (tr @ [ev]) s'"
  shows "P tr s"
  using assms(1)
proof (induction tr arbitrary: s rule: rev_induct)
  case Nil
  with assms(2) show ?case by simp
next
  case (snoc ev tr)
  from snoc.prems obtain s1 where r: "run h e s0 tr = Some s1" and st: "step h e s1 ev = Some s"
    by (rule run_snoc_Some)
  from snoc.IH [OF r] have p: "P tr s1" .
  from r p st show ?case by (rule assms(3))
qed

lemma step_not_panicked: "step h e s ev = Some s' \<Longrightarrow> panicked s = None"
  by (simp add: step_def split: if_splits)

lemma reach_goodState:
  assumes "run h e (initial h segments w) tr = Some s"
  shows "goodState s"
  using assms
  by (induction rule: reach_induct) (auto intro: goodState_initial goodState_step)

lemma workerEvents_snoc:
  "workerEvents i (tr @ [ev]) = (if actor ev = Some i then workerEvents i tr @ [ev] else workerEvents i tr)"
  by (simp add: workerEvents_def)

lemma lastOpt_snoc: "lastOpt (xs @ [x]) = Some x"
  by (simp add: lastOpt_def)

lemma worker_step_own:
  assumes "step h e s ev = Some s'" and "actor ev = Some i"
  shows "i < length (workers s) \<and> (panicked s' \<noteq> None \<or> pcAfter (Some ev) (workers s' ! i))"
  using assms by (cases rule: step_cases) auto

lemma worker_step_other:
  assumes "step h e s ev = Some s'" and "actor ev \<noteq> Some i"
  shows "workers s' ! i = workers s ! i"
  using assms by (cases rule: step_cases) (auto simp add: nth_list_update)

lemma reach_worker:
  assumes "run h e (initial h segments w) tr = Some s" and "i < length (workers s)"
  shows "panicked s \<noteq> None \<or> pcAfter (lastOpt (workerEvents i tr)) (workers s ! i)"
  using assms
proof (induction rule: reach_induct)
  case Start
  then show ?case by (simp add: initial_def workerEvents_def lastOpt_def)
next
  case (Step tr s ev s')
  from Step.hyps(2) have len: "length (workers s') = length (workers s)"
    by (rule length_workers_step)
  from Step.hyps(2) have np: "panicked s = None" by (rule step_not_panicked)
  show ?case
  proof (cases "actor ev = Some i")
    case True
    with worker_step_own [OF Step.hyps(2) True] show ?thesis
      by (simp add: workerEvents_snoc lastOpt_snoc)
  next
    case False
    from Step.IH Step.prems len np have "pcAfter (lastOpt (workerEvents i tr)) (workers s ! i)"
      by simp
    with worker_step_other [OF Step.hyps(2) False] False show ?thesis
      by (simp add: workerEvents_snoc)
  qed
qed

lemma enabled_pc:
  assumes "step h e s ev = Some s'" and "actor ev = Some i" and "pcAfter prev (workers s ! i)"
  shows "mayFollow i prev ev"
proof (cases prev)
  case None
  show ?thesis using assms None by (cases rule: step_cases) auto
next
  case (Some p)
  show ?thesis
  proof (cases p)
    case (Dispatch j)
    show ?thesis using assms Some \<open>p = _\<close> by (cases rule: step_cases) auto
  next
    case (Poll j)
    show ?thesis using assms Some \<open>p = _\<close> by (cases rule: step_cases) auto
  next
    case (Attempt j)
    show ?thesis using assms Some \<open>p = _\<close> by (cases rule: step_cases) auto
  next
    case (Wake j)
    show ?thesis using assms Some \<open>p = _\<close> by (cases rule: step_cases) auto
  next
    case (Report j)
    show ?thesis using assms Some \<open>p = _\<close> by (cases rule: step_cases) auto
  next
    case FeederNext
    show ?thesis using assms Some \<open>p = _\<close> by (cases rule: step_cases) auto
  next
    case (RangeEnd j)
    show ?thesis using assms Some \<open>p = _\<close> by (cases rule: step_cases) auto
  next
    case (CloseResult j)
    show ?thesis using assms Some \<open>p = _\<close> by (cases rule: step_cases) auto
  next
    case (SendClosed j)
    show ?thesis using assms Some \<open>p = _\<close> by (cases rule: step_cases) auto
  next
    case CloseAbort
    show ?thesis using assms Some \<open>p = _\<close> by (cases rule: step_cases) auto
  next
    case RecvClosed
    show ?thesis using assms Some \<open>p = _\<close> by (cases rule: step_cases) auto
  next
    case WaitDone
    show ?thesis using assms Some \<open>p = _\<close> by (cases rule: step_cases) auto
  next
    case Success
    show ?thesis using assms Some \<open>p = _\<close> by (cases rule: step_cases) auto
  qed
qed

lemma worker_order:
  assumes "run h e (initial h segments w) (pre @ ev # post) = Some s" and "actor ev = Some i"
  shows "mayFollow i (lastOpt (workerEvents i pre)) ev"
proof -
  from assms(1) obtain s1 s2 where r: "run h e (initial h segments w) pre = Some s1"
    and st: "step h e s1 ev = Some s2"
    by (rule run_split_Some)
  from st have np: "panicked s1 = None" by (rule step_not_panicked)
  from worker_step_own [OF st assms(2)] have "i < length (workers s1)" by simp
  from reach_worker [OF r this] np have "pcAfter (lastOpt (workerEvents i pre)) (workers s1 ! i)"
    by simp
  with st assms(2) show ?thesis by (rule enabled_pc)
qed

lemma abort_run_mono:
  "run h e s1 post = Some s \<Longrightarrow> abort s1 \<Longrightarrow> abort s"
proof (induction post arbitrary: s1)
  case Nil
  then show ?case by simp
next
  case (Cons ev post)
  from Cons.prems(1) obtain s2 where st: "step h e s1 ev = Some s2" and r: "run h e s2 post = Some s"
    by (auto split: option.splits)
  from st Cons.prems(2) have "abort s2" by (rule abort_step_mono)
  with r show ?case by (rule Cons.IH)
qed

lemma reach_abort_once:
  assumes "run h e (initial h segments w) tr = Some s"
  shows "length (filter (\<lambda>ev. ev = CloseAbort) tr) = (if abort s then 1 else 0)"
  using assms
proof (induction rule: reach_induct)
  case Start
  then show ?case by (simp add: initial_def)
next
  case (Step tr s ev s')
  from Step.hyps(1) have g: "goodState s" by (rule reach_goodState)
  from Step.hyps(2) g Step.IH show ?case
    by (cases rule: step_cases) (auto simp add: goodState_def)
qed

lemma stopped_step:
  assumes "step h e s ev = Some s'" and "workers s ! i = WClose \<or> workers s ! i = WDone"
  shows "(workers s' ! i = WClose \<or> workers s' ! i = WDone) \<and> ev \<noteq> Attempt i \<and> ev \<noteq> Dispatch i"
  using assms by (cases rule: step_cases) (auto simp add: nth_list_update)

lemma stopped_run:
  "run h e s1 post = Some s \<Longrightarrow> workers s1 ! i = WClose \<or> workers s1 ! i = WDone \<Longrightarrow>
   Attempt i \<notin> set post \<and> Dispatch i \<notin> set post"
proof (induction post arbitrary: s1)
  case Nil
  then show ?case by simp
next
  case (Cons ev post)
  from Cons.prems(1) obtain s2 where st: "step h e s1 ev = Some s2" and r: "run h e s2 post = Some s"
    by (auto split: option.splits)
  from stopped_step [OF st Cons.prems(2)]
  have a: "workers s2 ! i = WClose \<or> workers s2 ! i = WDone" and b: "ev \<noteq> Attempt i" "ev \<noteq> Dispatch i"
    by simp_all
  from Cons.IH [OF r a] b show ?case by auto
qed

lemma poll_abort_stops:
  assumes "run h e s0 (pre @ Poll i # post) = Some s" and "run h e s0 pre = Some s1" and "abort s1"
  shows "Attempt i \<notin> set post \<and> Dispatch i \<notin> set post"
proof -
  from assms(1,2) obtain s2 where st: "step h e s1 (Poll i) = Some s2" and r: "run h e s2 post = Some s"
    by (auto simp add: run_append split: option.splits)
  from st assms(3) have "workers s2 ! i = WClose"
    by (cases rule: step_cases) auto
  with r show ?thesis using stopped_run by blast
qed

text \<open>
  Claim C6, as the code has it. Along every run of the pipeline: once \<open>wc.abort\<close> is
  closed it stays closed; it is closed at most once; the events of every worker follow one
  another as \<open>mayFollow\<close> says, so that a download attempt comes directly after a poll of
  the abort signal, and the first thing a worker does after taking a segment from the queue
  and after the end of a retry sleep is that poll; and a worker whose poll finds the signal
  set makes no attempt and takes no segment afterwards. The worker does not poll before it
  takes a segment from the queue: see \<open>take_without_poll\<close>.
\<close>

theorem abort_signal_observed:
  assumes "run h e (initial h segments w) tr = Some s"
  shows "(\<forall>pre post s1. tr = pre @ post \<longrightarrow> run h e (initial h segments w) pre = Some s1 \<longrightarrow>
            abort s1 \<longrightarrow> abort s) \<and>
         length (filter (\<lambda>ev. ev = CloseAbort) tr) \<le> 1 \<and>
         (\<forall>pre ev post i. tr = pre @ ev # post \<longrightarrow> actor ev = Some i \<longrightarrow>
            mayFollow i (lastOpt (workerEvents i pre)) ev) \<and>
         (\<forall>pre post i s1. tr = pre @ Poll i # post \<longrightarrow>
            run h e (initial h segments w) pre = Some s1 \<longrightarrow> abort s1 \<longrightarrow>
            Attempt i \<notin> set post \<and> Dispatch i \<notin> set post)"
proof (intro conjI allI impI)
  fix pre post s1
  assume "tr = pre @ post" and r: "run h e (initial h segments w) pre = Some s1" and a: "abort s1"
  with assms have "run h e s1 post = Some s" by (simp add: run_append)
  then show "abort s" using a by (rule abort_run_mono)
next
  from reach_abort_once [OF assms] show "length (filter (\<lambda>ev. ev = CloseAbort) tr) \<le> 1"
    by simp
next
  fix pre ev post i
  assume "tr = pre @ ev # post" and "actor ev = Some i"
  with assms show "mayFollow i (lastOpt (workerEvents i pre)) ev"
    using worker_order by simp
next
  fix pre post i s1
  assume "tr = pre @ Poll i # post" and "run h e (initial h segments w) pre = Some s1" and "abort s1"
  with assms have "Attempt i \<notin> set post \<and> Dispatch i \<notin> set post"
    using poll_abort_stops by simp
  then show "Attempt i \<notin> set post" "Dispatch i \<notin> set post" by simp_all
qed

lemma afterAbort_snoc:
  "afterAbort (tr @ [ev]) =
     (if CloseAbort \<in> set tr then afterAbort tr @ [ev]
      else if ev = CloseAbort then [CloseAbort] else [])"
proof (cases "CloseAbort \<in> set tr")
  case True
  then show ?thesis by (simp add: afterAbort_def dropWhile_append1)
next
  case False
  then have "dropWhile (\<lambda>ev. ev \<noteq> CloseAbort) (tr @ [ev]) = dropWhile (\<lambda>ev. ev \<noteq> CloseAbort) [ev]"
    by (intro dropWhile_append2) auto
  with False show ?thesis by (simp add: afterAbort_def)
qed

lemma lateDispatches_snoc:
  "lateDispatches (tr @ [ev]) =
     (if CloseAbort \<in> set tr \<and> isDispatch ev then Suc (lateDispatches tr)
      else if CloseAbort \<in> set tr then lateDispatches tr else 0)"
  by (simp add: lateDispatches_def afterAbort_snoc)

lemma lateDispatches_none: "CloseAbort \<notin> set tr \<Longrightarrow> lateDispatches tr = 0"
proof -
  assume "CloseAbort \<notin> set tr"
  then have d: "dropWhile (\<lambda>ev. ev \<noteq> CloseAbort) tr = []"
    by (auto simp add: dropWhile_eq_Nil_conv)
  show ?thesis unfolding lateDispatches_def afterAbort_def d by simp
qed

lemma reach_feederInv:
  assumes "run h e (initial h segments w) tr = Some s"
  shows "feederInv tr s"
  using assms
proof (induction rule: reach_induct)
  case Start
  then show ?case by (simp add: feederInv_def initial_def lateDispatches_def afterAbort_def)
next
  case (Step tr s ev s')
  have z: "\<not> abort s \<Longrightarrow> lateDispatches tr = 0"
    using Step.IH by (simp add: feederInv_def lateDispatches_none)
  from Step.hyps(2) Step.IH z show ?case
    by (cases rule: step_cases)
       (auto simp add: feederInv_def lateDispatches_snoc split: feederPc.splits)
qed

lemma feeder_done_step:
  assumes "step h e s ev = Some s'" and "feeder s = FDone"
  shows "feeder s' = FDone \<and> \<not> isDispatch ev"
  using assms by (cases rule: step_cases) auto

lemma feeder_done_run:
  "run h e s1 post = Some s \<Longrightarrow> feeder s1 = FDone \<Longrightarrow> filter isDispatch post = []"
proof (induction post arbitrary: s1)
  case Nil
  then show ?case by simp
next
  case (Cons ev post)
  from Cons.prems(1) obtain s2 where st: "step h e s1 ev = Some s2" and r: "run h e s2 post = Some s"
    by (auto split: option.splits)
  from feeder_done_step [OF st Cons.prems(2)] have a: "feeder s2 = FDone" and b: "\<not> isDispatch ev"
    by simp_all
  from Cons.IH [OF r a] b show ?case by simp
qed

lemma feeder_sees_abort:
  assumes "run h e s0 (pre @ FeederNext # post) = Some s" and "run h e s0 pre = Some s1" and "abort s1"
  shows "filter isDispatch post = []"
proof -
  from assms(1,2) obtain s2 where st: "step h e s1 FeederNext = Some s2" and r: "run h e s2 post = Some s"
    by (auto simp add: run_append split: option.splits)
  from st assms(3) have "feeder s2 = FDone"
    by (cases rule: step_cases) auto
  with r show ?thesis by (rule feeder_done_run)
qed

lemma report_error_returns:
  assumes g: "goodState s" and i: "i < length (workers s)" and ws: "workers s ! i = WSend r"
    and er: "err r = Some x" and c: "coordinator s = CSelect"
  shows "run h e s [Report i, CloseAbort] =
           Some (s\<lparr>workers := (workers s)[i := WRange], coordinator := CReturn (Some x), abort := True\<rparr>)"
proof -
  from g c have na: "\<not> abort s" by (simp add: goodState_def)
  with g have nr: "\<not> resultClosed s" and np: "panicked s = None" by (auto simp add: goodState_def)
  let ?s1 = "s\<lparr>workers := (workers s)[i := WRange], coordinator := CAbort x\<rparr>"
  have 1: "step h e s (Report i) = Some ?s1"
    using i ws er c nr np by (simp add: step_def report_def)
  have 2: "step h e ?s1 CloseAbort = Some (?s1\<lparr>abort := True, coordinator := CReturn (Some x)\<rparr>)"
    using na np by (simp add: step_def closeAbort_def)
  show ?thesis by (simp add: 1 2)
qed

lemma aborting_coordinator:
  assumes g: "goodState s" and c: "coordinator s = CAbort x"
  shows "step h e s CloseAbort = Some (s\<lparr>abort := True, coordinator := CReturn (Some x)\<rparr>) \<and>
         step h e s (Report j) = None \<and> step h e s Success = None \<and> step h e s RecvClosed = None"
proof -
  from g c have na: "\<not> abort s" by (simp add: goodState_def)
  with g have np: "panicked s = None" by (auto simp add: goodState_def)
  show ?thesis
    using na np c
    by (simp add: step_def closeAbort_def report_def success_def recvClosed_def split: workerPc.splits)
qed

text \<open>
  Claim C2, as the code has it. In every state the pipeline reaches: when a worker hands a
  result with an error to the selecting coordinator, the coordinator's next two steps set
  the abort signal and return that error from \<open>processSegments\<close>, whatever the other
  goroutines are doing; having received the error, the coordinator can do nothing but close
  \<open>wc.abort\<close>; at most one segment is dispatched after the abort signal is set (the one
  whose check of the signal came before); and after the feeder has checked the signal once
  it is set, it dispatches nothing.
\<close>

theorem abort_on_error:
  assumes "run h e (initial h segments w) tr = Some s"
  shows "(\<forall>i r x. i < length (workers s) \<longrightarrow> workers s ! i = WSend r \<longrightarrow> err r = Some x \<longrightarrow>
            coordinator s = CSelect \<longrightarrow>
            (\<exists>s'. run h e (initial h segments w) (tr @ [Report i, CloseAbort]) = Some s' \<and>
                  abort s' \<and> coordinator s' = CReturn (Some x)) \<and>
            processSegments h e segments (tr @ [Report i, CloseAbort]) w =
              Some (Some x, segs s, world_of s)) \<and>
         (\<forall>x. coordinator s = CAbort x \<longrightarrow>
            step h e s CloseAbort = Some (s\<lparr>abort := True, coordinator := CReturn (Some x)\<rparr>) \<and>
            (\<forall>j. step h e s (Report j) = None) \<and> step h e s Success = None \<and>
            step h e s RecvClosed = None) \<and>
         lateDispatches tr \<le> 1 \<and>
         (\<forall>pre post s1. tr = pre @ FeederNext # post \<longrightarrow>
            run h e (initial h segments w) pre = Some s1 \<longrightarrow> abort s1 \<longrightarrow>
            filter isDispatch post = [])"
proof -
  from assms have g: "goodState s" by (rule reach_goodState)
  have a: "(\<exists>s'. run h e (initial h segments w) (tr @ [Report i, CloseAbort]) = Some s' \<and>
                  abort s' \<and> coordinator s' = CReturn (Some x)) \<and>
            processSegments h e segments (tr @ [Report i, CloseAbort]) w =
              Some (Some x, segs s, world_of s)"
    if "i < length (workers s)" "workers s ! i = WSend r" "err r = Some x" "coordinator s = CSelect"
    for i r x
  proof -
    from g that(4) have "\<not> abort s" by (simp add: goodState_def)
    with g have np: "panicked s = None" by (auto simp add: goodState_def)
    let ?s' = "s\<lparr>workers := (workers s)[i := WRange], coordinator := CReturn (Some x), abort := True\<rparr>"
    from report_error_returns [OF g that, of h e] assms
    have r: "run h e (initial h segments w) (tr @ [Report i, CloseAbort]) = Some ?s'"
      by (simp add: run_append)
    then show ?thesis using np by (simp add: processSegments_def)
  qed
  have b: "step h e s CloseAbort = Some (s\<lparr>abort := True, coordinator := CReturn (Some x)\<rparr>) \<and>
            (\<forall>j. step h e s (Report j) = None) \<and> step h e s Success = None \<and>
            step h e s RecvClosed = None" if "coordinator s = CAbort x" for x
    using aborting_coordinator [OF g that] by blast
  have c: "lateDispatches tr \<le> 1"
    using reach_feederInv [OF assms] by (auto simp add: feederInv_def split: feederPc.splits)
  have d: "filter isDispatch post = []"
    if "tr = pre @ FeederNext # post" "run h e (initial h segments w) pre = Some s1" "abort s1"
    for pre post s1
    using assms that feeder_sees_abort by simp
  from a b c d show ?thesis by blast
qed

lemma sinceDispatch_snoc:
  "sinceDispatch i (tr @ [ev]) = (if ev = Dispatch i then [] else sinceDispatch i tr @ [ev])"
  by (simp add: sinceDispatch_def)

lemma retries_snoc:
  "retries i (tr @ [ev]) =
     (if ev = Dispatch i then 0 else if ev = Wake i then Suc (retries i tr) else retries i tr)"
  by (simp add: retries_def sinceDispatch_snoc)

lemma tries_snoc:
  "tries i (tr @ [ev]) =
     (if ev = Dispatch i then 0 else if ev = Attempt i then Suc (tries i tr) else tries i tr)"
  by (simp add: tries_def sinceDispatch_snoc)

lemma retryInv_bounds: "retryInv r t pc \<Longrightarrow> r \<le> maxAttempts \<and> t \<le> Suc maxAttempts"
  by (cases pc) auto

lemma reach_retryInv:
  assumes "run h e (initial h segments w) tr = Some s" and "i < length (workers s)"
  shows "retryInv (retries i tr) (tries i tr) (workers s ! i)"
  using assms
proof (induction rule: reach_induct)
  case Start
  then show ?case by (simp add: initial_def retries_def tries_def sinceDispatch_def)
next
  case (Step tr s ev s')
  from Step.hyps(2) have len: "length (workers s') = length (workers s)"
    by (rule length_workers_step)
  with Step.IH Step.prems have ih: "retryInv (retries i tr) (tries i tr) (workers s ! i)" by simp
  note b = retryInv_bounds [OF ih]
  from Step.hyps(2) ih b Step.prems len show ?case
    by (cases rule: step_cases)
       (auto simp add: retries_snoc tries_snoc nth_list_update maxAttempts_def)
qed

text \<open>
  Claim C3, as the code has it. For every worker along every run: since the worker took its
  current segment there have been at most 3 retry sleeps and at most 4 attempts; at every
  attempt, each earlier attempt on the segment has been followed by one sleep; every sleep
  lasts \<open>time.Second\<close>; and a failed attempt is retried exactly when the message of its
  error contains \<open>connection reset by peer\<close> and fewer than 3 retries have been made, and is
  otherwise handed to the coordinator at once as a result with that error.
\<close>

theorem retry_policy:
  assumes "run h e (initial h segments w) tr = Some s" and "i < length (workers s)"
  shows "retries i tr \<le> 3 \<and> tries i tr \<le> 4 \<and>
         (\<forall>pre post. tr = pre @ Attempt i # post \<longrightarrow> tries i pre = retries i pre) \<and>
         (\<forall>seg a d. workers s ! i = WSleep seg a d \<longrightarrow> d = time_Second) \<and>
         (\<forall>seg a x w'. workers s ! i = WAttempt seg a \<longrightarrow> panicked s = None \<longrightarrow>
            downloadSegment h e seg (world_of s) = (Some x, w') \<longrightarrow>
            (\<exists>s'. step h e s (Attempt i) = Some s' \<and>
                  workers s' ! i =
                    (if connectionReset x \<and> retries i tr < 3
                     then WSleep seg (retries i tr + 1) time_Second
                     else WSend \<lparr>err = Some x, seqId = SeqId seg\<rparr>)))"
proof -
  note inv = reach_retryInv [OF assms]
  from retryInv_bounds [OF inv] have a: "retries i tr \<le> 3" "tries i tr \<le> 4"
    by (simp_all add: maxAttempts_def)
  have b: "tries i pre = retries i pre" if "tr = pre @ Attempt i # post" for pre post
  proof -
    from assms(1) that obtain s1 s2 where r: "run h e (initial h segments w) pre = Some s1"
      and st: "step h e s1 (Attempt i) = Some s2"
      by (auto elim: run_split_Some)
    from st obtain seg a where i: "i < length (workers s1)" and pc: "workers s1 ! i = WAttempt seg a"
      by (cases rule: step_cases) auto
    from reach_retryInv [OF r i] pc show ?thesis by simp
  qed
  have c: "d = time_Second" if "workers s ! i = WSleep seg a d" for seg a d
    using inv that by simp
  have d: "\<exists>s'. step h e s (Attempt i) = Some s' \<and>
                  workers s' ! i =
                    (if connectionReset x \<and> retries i tr < 3
                     then WSleep seg (retries i tr + 1) time_Second
                     else WSend \<lparr>err = Some x, seqId = SeqId seg\<rparr>)"
    if "workers s ! i = WAttempt seg a" "panicked s = None"
      "downloadSegment h e seg (world_of s) = (Some x, w')" for seg a x w'
  proof -
    from inv that(1) have "retries i tr = a" by simp
    with that assms(2) show ?thesis
      by (simp add: step_def attempt_def maxAttempts_def)
  qed
  from a b c d show ?thesis by blast
qed

lemma abort_run_general:
  assumes "h_workers h = 1"
    and "downloadSegment h e (assignPath h d0) w = (Some x, w')"
    and "\<not> connectionReset x"
  shows "run h e (initial h [d0, d1] w) demoAbortSchedule =
     Some \<lparr>world_of = w', segs = [assignPath h d0, assignPath h d1],
           abort = True, segmentsClosed = False, resultClosed = False, wg = 1,
           coordinator = CReturn (Some x), feeder = FLoop 2,
           workers = [WCheck (assignPath h d1) 0], observer = OWait, bar = 0,
           panicked = None\<rparr>"
  using assms
  by (simp add: demoAbortSchedule_def initial_def step_defs)

lemma abort_run_prefix:
  assumes "h_workers h = 1"
    and "downloadSegment h e (assignPath h d0) w = (Some x, w')"
    and "\<not> connectionReset x"
  shows "run h e (initial h [d0, d1] w) [FeederNext, Dispatch 0, FeederNext, Poll 0, Attempt 0] =
     Some \<lparr>world_of = w', segs = [assignPath h d0, assignPath h d1],
           abort = False, segmentsClosed = False, resultClosed = False, wg = 1,
           coordinator = CSelect, feeder = FSend 1,
           workers = [WSend \<lparr>err = Some x, seqId = SeqId d0\<rparr>], observer = OWait, bar = 0,
           panicked = None\<rparr>"
    and "run h e (initial h [d0, d1] w) [FeederNext, Dispatch 0, FeederNext, Poll 0, Attempt 0, Report 0, CloseAbort] =
     Some \<lparr>world_of = w', segs = [assignPath h d0, assignPath h d1],
           abort = True, segmentsClosed = False, resultClosed = False, wg = 1,
           coordinator = CReturn (Some x), feeder = FSend 1,
           workers = [WRange], observer = OWait, bar = 0,
           panicked = None\<rparr>"
  using assms
  by (simp_all add: initial_def step_defs assignPath_def)

lemma demo_workers: "h_workers demoDownloader = 1"
  by (simp add: demoDownloader_def)

lemma demo_bad:
  "downloadSegment demoDownloader demoEnv (assignPath demoDownloader demoBad) demoWorld =
     (Some ''connection refused'',
      demoWorld\<lparr>requests := [\<lparr>Via = Client 1, Method = ''GET'', URL = ''http://host/missing.ts'', Header = demoHeader\<rparr>]\<rparr>)"
  by (simp add: demo_download_bad demoWorld_def)

lemmas demo_abort = abort_run_general [OF demo_workers demo_bad no_reset, of demoNext]
lemmas demo_abort_prefix = abort_run_prefix [OF demo_workers demo_bad no_reset, of demoNext]

lemma demo_stop_run:
  "run demoDownloader demoEnv (initial demoDownloader [demoBad, demoNext] demoWorld) demoStopSchedule =
     Some \<lparr>world_of = demoWorld\<lparr>requests := [\<lparr>Via = Client 1, Method = ''GET'', URL = ''http://host/missing.ts'', Header = demoHeader\<rparr>]\<rparr>,
           segs = [assignPath demoDownloader demoBad, assignPath demoDownloader demoNext],
           abort = True, segmentsClosed = False, resultClosed = True, wg = 0,
           coordinator = CReturn (Some ''connection refused''), feeder = FLoop 2,
           workers = [WDone], observer = OWait, bar = 0, panicked = None\<rparr>"
  by (simp add: demoStopSchedule_def run_append demo_abort step_defs)

text \<open>
  Claim C2 as stated fails: in this run the feeder checks the abort signal, finds it unset
  and blocks in its send; the coordinator then closes \<open>wc.abort\<close>; after that the worker
  receives the segment.
\<close>

theorem dispatch_after_abort:
  "run demoDownloader demoEnv (initial demoDownloader [demoBad, demoNext] demoWorld) demoAbortSchedule \<noteq> None \<and>
   filter isDispatch (afterAbort demoAbortSchedule) = [Dispatch 0]"
proof -
  have "filter isDispatch (afterAbort demoAbortSchedule) = [Dispatch 0]"
    by (simp add: afterAbort_def demoAbortSchedule_def)
  then show ?thesis by (simp add: demo_abort)
qed

text \<open>
  Claim C6 as stated fails: in this run of one worker the worker takes the second segment
  from the queue while the abort signal is set, and the step of the worker before that is
  the delivery of its result, not a poll of the signal.
\<close>

theorem take_without_poll:
  "demoAbortSchedule = [FeederNext, Dispatch 0, FeederNext, Poll 0, Attempt 0, Report 0, CloseAbort] @ [Dispatch 0] \<and>
   run demoDownloader demoEnv (initial demoDownloader [demoBad, demoNext] demoWorld) demoAbortSchedule \<noteq> None \<and>
   map_option abort (run demoDownloader demoEnv (initial demoDownloader [demoBad, demoNext] demoWorld)
     [FeederNext, Dispatch 0, FeederNext, Poll 0, Attempt 0, Report 0, CloseAbort]) = Some True \<and>
   lastOpt (workerEvents 0 [FeederNext, Dispatch 0, FeederNext, Poll 0, Attempt 0, Report 0, CloseAbort]) =
     Some (Report 0)"
proof -
  have "demoAbortSchedule = [FeederNext, Dispatch 0, FeederNext, Poll 0, Attempt 0, Report 0, CloseAbort] @ [Dispatch 0]"
    by (simp add: demoAbortSchedule_def)
  moreover have "run demoDownloader demoEnv (initial demoDownloader [demoBad, demoNext] demoWorld) demoAbortSchedule \<noteq> None"
    unfolding demo_abort by simp
  moreover have "map_option abort (run demoDownloader demoEnv (initial demoDownloader [demoBad, demoNext] demoWorld)
     [FeederNext, Dispatch 0, FeederNext, Poll 0, Attempt 0, Report 0, CloseAbort]) = Some True"
    unfolding demo_abort_prefix(2) by simp
  moreover have "lastOpt (workerEvents 0 [FeederNext, Dispatch 0, FeederNext, Poll 0, Attempt 0, Report 0, CloseAbort]) =
     Some (Report 0)"
    by (simp add: lastOpt_def workerEvents_def)
  ultimately show ?thesis by blast
qed

theorem abort_signal_observed_witness:
  "run demoDownloader demoEnv (initial demoDownloader [demoBad, demoNext] demoWorld) demoStopSchedule \<noteq> None \<and>
   length (filter (\<lambda>ev. ev = CloseAbort) demoStopSchedule) \<le> 1 \<and>
   mayFollow 0 (lastOpt (workerEvents 0 [FeederNext, Dispatch 0, FeederNext, Poll 0])) (Attempt 0) \<and>
   lastOpt (workerEvents 0 [FeederNext, Dispatch 0, FeederNext, Poll 0]) = Some (Poll 0) \<and>
   Attempt 0 \<notin> set [CloseResult 0] \<and> Dispatch 0 \<notin> set [CloseResult 0]"
proof -
  note t = abort_signal_observed [OF demo_stop_run]
  have split1: "demoStopSchedule = [FeederNext, Dispatch 0, FeederNext, Poll 0] @ Attempt 0 #
      [Report 0, CloseAbort, Dispatch 0, Poll 0, CloseResult 0]"
    by (simp add: demoStopSchedule_def demoAbortSchedule_def)
  have split2: "demoStopSchedule = demoAbortSchedule @ Poll 0 # [CloseResult 0]"
    by (simp add: demoStopSchedule_def)
  from t have once: "length (filter (\<lambda>ev. ev = CloseAbort) demoStopSchedule) \<le> 1" by blast
  from t split1 have ord: "mayFollow 0 (lastOpt (workerEvents 0 [FeederNext, Dispatch 0, FeederNext, Poll 0])) (Attempt 0)"
    by (metis actor.simps(4))
  from t split2 demo_abort have stop: "Attempt 0 \<notin> set [CloseResult 0] \<and> Dispatch 0 \<notin> set [CloseResult 0]"
    by simp
  have l: "lastOpt (workerEvents 0 [FeederNext, Dispatch 0, FeederNext, Poll 0]) = Some (Poll 0)"
    by (simp add: lastOpt_def workerEvents_def)
  from once ord stop l demo_stop_run show ?thesis by simp
qed

theorem abort_on_error_witness:
  "processSegments demoDownloader demoEnv [demoBad, demoNext]
     ([FeederNext, Dispatch 0, FeederNext, Poll 0, Attempt 0] @ [Report 0, CloseAbort]) demoWorld =
     Some (Some ''connection refused'',
           [assignPath demoDownloader demoBad, assignPath demoDownloader demoNext],
           demoWorld\<lparr>requests := [\<lparr>Via = Client 1, Method = ''GET'', URL = ''http://host/missing.ts'', Header = demoHeader\<rparr>]\<rparr>) \<and>
   lateDispatches [FeederNext, Dispatch 0, FeederNext, Poll 0, Attempt 0] \<le> 1"
proof -
  note t = abort_on_error [OF demo_abort_prefix(1), THEN conjunct1, rule_format, of 0
      "\<lparr>err = Some ''connection refused'', seqId = SeqId demoBad\<rparr>" "''connection refused''"]
  note l = abort_on_error [OF demo_abort_prefix(1), THEN conjunct2, THEN conjunct2, THEN conjunct1]
  from t have "processSegments demoDownloader demoEnv [demoBad, demoNext]
     ([FeederNext, Dispatch 0, FeederNext, Poll 0, Attempt 0] @ [Report 0, CloseAbort]) demoWorld =
     Some (Some ''connection refused'',
           [assignPath demoDownloader demoBad, assignPath demoDownloader demoNext],
           demoWorld\<lparr>requests := [\<lparr>Via = Client 1, Method = ''GET'', URL = ''http://host/missing.ts'', Header = demoHeader\<rparr>]\<rparr>)"
    by simp
  with l show ?thesis by blast
qed

lemma download_fails_general:
  assumes "transport demoEnv (length (requests w))
      \<lparr>Via = h_client h, Method = ''GET'', URL = URI d, Header = h_header h\<rparr> = Inl x"
  shows "downloadSegment h demoEnv (assignPath h d) w =
     (Some x, w\<lparr>requests := requests w @
        [\<lparr>Via = h_client h, Method = ''GET'', URL = URI d, Header = h_header h\<rparr>]\<rparr>)"
  using assms
  by (simp add: downloadSegment_def newRequest_def http_NewRequest_def demoEnv_fields(2) client_Do_def
      Let_def assignPath_def)

lemma demo_reset_transport:
  "transport demoEnv n \<lparr>Via = c, Method = ''GET'', URL = URI demoReset, Header = hdr\<rparr> =
     Inl ''read tcp 10.0.0.2:443: read: connection reset by peer''"
  by (simp add: demoEnv_fields demoTransport_def demoReset_def)

lemma demo_reset_download:
  "downloadSegment demoDownloader demoEnv (assignPath demoDownloader demoReset) w =
     (Some ''read tcp 10.0.0.2:443: read: connection reset by peer'',
      w\<lparr>requests := requests w @
        [\<lparr>Via = Client 1, Method = ''GET'', URL = ''http://host/reset.ts'', Header = demoHeader\<rparr>]\<rparr>)"
  using download_fails_general [where h = demoDownloader and w = w and d = demoReset, OF demo_reset_transport]
  by (simp add: demoDownloader_def demoReset_def)

lemma is_reset: "connectionReset ''read tcp 10.0.0.2:443: read: connection reset by peer''"
  by (simp add: connectionReset_def)

lemma demo_retry_run:
  "run demoDownloader demoEnv (initial demoDownloader [demoReset] demoWorld) demoRetrySchedule =
     Some \<lparr>world_of = demoWorld\<lparr>requests :=
             [\<lparr>Via = Client 1, Method = ''GET'', URL = ''http://host/reset.ts'', Header = demoHeader\<rparr>,
              \<lparr>Via = Client 1, Method = ''GET'', URL = ''http://host/reset.ts'', Header = demoHeader\<rparr>,
              \<lparr>Via = Client 1, Method = ''GET'', URL = ''http://host/reset.ts'', Header = demoHeader\<rparr>]\<rparr>,
           segs = [assignPath demoDownloader demoReset],
           abort = False, segmentsClosed = False, resultClosed = False, wg = 1,
           coordinator = CSelect, feeder = FLoop 1,
           workers = [WAttempt (assignPath demoDownloader demoReset) 3], observer = OWait, bar = 0,
           panicked = None\<rparr>"
  by (simp add: demoRetrySchedule_def initial_def step_defs demo_reset_download is_reset demo_workers
      maxAttempts_def demoWorld_def)

lemma demo_retry_counts: "retries 0 demoRetrySchedule = 3 \<and> tries 0 demoRetrySchedule = 3"
  by (simp add: retries_def tries_def sinceDispatch_def demoRetrySchedule_def)

theorem retry_policy_witness:
  "run demoDownloader demoEnv (initial demoDownloader [demoReset] demoWorld) demoRetrySchedule \<noteq> None \<and>
   retries 0 demoRetrySchedule = 3 \<and> tries 0 demoRetrySchedule = 3 \<and>
   connectionReset ''read tcp 10.0.0.2:443: read: connection reset by peer'' \<and>
   (\<exists>s'. run demoDownloader demoEnv (initial demoDownloader [demoReset] demoWorld)
            (demoRetrySchedule @ [Attempt 0]) = Some s' \<and>
         workers s' ! 0 =
           WSend \<lparr>err = Some ''read tcp 10.0.0.2:443: read: connection reset by peer'',
                  seqId = SeqId (assignPath demoDownloader demoReset)\<rparr>)"
proof -
  let ?s = "\<lparr>world_of = demoWorld\<lparr>requests :=
             [\<lparr>Via = Client 1, Method = ''GET'', URL = ''http://host/reset.ts'', Header = demoHeader\<rparr>,
              \<lparr>Via = Client 1, Method = ''GET'', URL = ''http://host/reset.ts'', Header = demoHeader\<rparr>,
              \<lparr>Via = Client 1, Method = ''GET'', URL = ''http://host/reset.ts'', Header = demoHeader\<rparr>]\<rparr>,
           segs = [assignPath demoDownloader demoReset],
           abort = False, segmentsClosed = False, resultClosed = False, wg = 1,
           coordinator = CSelect, feeder = FLoop 1,
           workers = [WAttempt (assignPath demoDownloader demoReset) 3], observer = OWait, bar = 0,
           panicked = None\<rparr>"
  have i: "0 < length (workers ?s)" by simp
  note t = retry_policy [OF demo_retry_run i]
  from t have "\<forall>seg a x w'. workers ?s ! 0 = WAttempt seg a \<longrightarrow> panicked ?s = None \<longrightarrow>
            downloadSegment demoDownloader demoEnv seg (world_of ?s) = (Some x, w') \<longrightarrow>
            (\<exists>s'. step demoDownloader demoEnv ?s (Attempt 0) = Some s' \<and>
                  workers s' ! 0 =
                    (if connectionReset x \<and> retries 0 demoRetrySchedule < 3
                     then WSleep seg (retries 0 demoRetrySchedule + 1) time_Second
                     else WSend \<lparr>err = Some x, seqId = SeqId seg\<rparr>))"
    by blast
  from this [rule_format, of "assignPath demoDownloader demoReset" 3
      "''read tcp 10.0.0.2:443: read: connection reset by peer''", OF _ _ demo_reset_download]
  obtain s' where st: "step demoDownloader demoEnv ?s (Attempt 0) = Some s'"
    and pc: "workers s' ! 0 = WSend \<lparr>err = Some ''read tcp 10.0.0.2:443: read: connection reset by peer'',
                  seqId = SeqId (assignPath demoDownloader demoReset)\<rparr>"
    by (auto simp add: demo_retry_counts)
  have "run demoDownloader demoEnv (initial demoDownloader [demoReset] demoWorld)
            (demoRetrySchedule @ [Attempt 0]) = Some s'"
    using st by (simp add: run_snoc demo_retry_run)
  with pc have "\<exists>s'. run demoDownloader demoEnv (initial demoDownloader [demoReset] demoWorld)
            (demoRetrySchedule @ [Attempt 0]) = Some s' \<and>
         workers s' ! 0 =
           WSend \<lparr>err = Some ''read tcp 10.0.0.2:443: read: connection reset by peer'',
                  seqId = SeqId (assignPath demoDownloader demoReset)\<rparr>"
    by blast
  moreover have "run demoDownloader demoEnv (initial demoDownloader [demoReset] demoWorld) demoRetrySchedule \<noteq> None"
    unfolding demo_retry_run by simp
  ultimately show ?thesis using demo_retry_counts is_reset by blast
qed

lemma demo_flaky_download:
  "downloadSegment demoDownloader demoEnv (assignPath demoDownloader demoFlaky) w =
     (Some ''500 connection reset by peer'',
      w\<lparr>requests := requests w @
        [\<lparr>Via = Client 1, Method = ''GET'', URL = ''http://host/flaky.ts'', Header = demoHeader\<rparr>]\<rparr>)"
  by (simp add: downloadSegment_def newRequest_def http_NewRequest_def demoEnv_fields client_Do_def
      Let_def assignPath_def demoDownloader_def demoFlaky_def demoTransport_def)

lemma is_reset_status: "connectionReset ''500 connection reset by peer''"
  by (simp add: connectionReset_def)

text \<open>
  Claim C3 as stated fails for a response that is not 200: the error of such a response is
  its status line, and where that reads \<open>500 connection reset by peer\<close> the attempt is
  retried after a sleep.
\<close>

theorem non_200_retried:
  "transport demoEnv 0 \<lparr>Via = Client 1, Method = ''GET'', URL = ''http://host/flaky.ts'', Header = demoHeader\<rparr> =
     Inr \<lparr>StatusCode = 500, Status = ''500 connection reset by peer'', Body = [], BodyErr = None\<rparr> \<and>
   map_option workers (run demoDownloader demoEnv (initial demoDownloader [demoFlaky] demoWorld)
       [FeederNext, Dispatch 0, Poll 0, Attempt 0]) =
     Some [WSleep (assignPath demoDownloader demoFlaky) 1 time_Second]"
  by (simp add: demoEnv_fields demoTransport_def initial_def step_defs demo_flaky_download
      is_reset_status demo_workers maxAttempts_def)

section \<open>Properties of the top-level call\<close>

lemma mkdirTempTry_created:
  "mkdirTempTry tmp rs w = Inr (name, w') \<Longrightarrow> name \<in> dirs w'"
  by (induction rs) (auto simp add: Let_def split: if_splits)

lemma RemoveAll_gone:
  "inDir name q \<Longrightarrow>
   files (snd (os_RemoveAll w name)) q = None \<and> q \<notin> dirs (snd (os_RemoveAll w name))"
  by (simp add: os_RemoveAll_def)

lemma inDir_refl: "inDir d d"
  by (simp add: inDir_def)

text \<open>
  Claim C8. Whenever \<open>Download\<close> returns after \<open>os.MkdirTemp\<close> has made the staging
  directory (with an error of \<open>processSegments\<close>, with an error or a panic of \<open>join\<close>,
  or with the output path), the staging directory has been made and is gone on return,
  together with everything below it.
\<close>

theorem Download_removes_staging:
  assumes "Download (Some h) e sched w = Some (r, w')"
    and "parseHLSSegments e (h_url h) (h_header h) w = (Inr segments, w1)"
    and "os_MkdirAll w1 (h_path h) = Inr w2"
    and "os_MkdirTemp e w2 = Inr (tmp, w3)"
  shows "tmp \<in> dirs w3 \<and> tmp \<notin> dirs w' \<and>
         (\<forall>q. inDir tmp q \<longrightarrow> files w' q = None \<and> q \<notin> dirs w')"
proof -
  from assms(4) have c: "tmp \<in> dirs w3"
    by (simp add: os_MkdirTemp_def mkdirTempTry_created)
  from assms obtain w4 where "w' = snd (os_RemoveAll w4 tmp)"
    by (auto simp add: Download_def split: option.splits prod.splits)
  then have g: "files w' q = None \<and> q \<notin> dirs w'" if "inDir tmp q" for q
    using that by (simp add: RemoveAll_gone)
  from g [OF inDir_refl] have "tmp \<notin> dirs w'" by simp
  with c g show ?thesis by blast
qed

lemma demo_prefixes: "pathPrefixes ''/out'' = [''/out'']"
  by code_simp

lemma demo_missing_transport:
  "transport demoEnv n \<lparr>Via = c, Method = ''GET'', URL = URI demoBad, Header = hdr\<rparr> =
     Inl ''connection refused''"
  by (simp add: demoEnv_fields demoTransport_def demoBad_def)

theorem Download_removes_staging_witness:
  "\<exists>w'. Download (Some demoDownloader) demoEnv demoAbortSchedule demoWorld =
          Some (Inl (Err ''connection refused''), w') \<and>
        ''/tmp/2-segments'' \<notin> dirs w' \<and> files w' ''/tmp/2-segments/seg0.ts'' = None \<and>
        ''/tmp/2-segments/seg0.ts'' \<notin> dirs w'"
proof -
  define w1 where "w1 = demoWorld\<lparr>requests :=
      [\<lparr>Via = DefaultClient, Method = ''GET'', URL = ''http://host/list.m3u8'', Header = demoHeader\<rparr>]\<rparr>"
  define w2 where "w2 = w1\<lparr>dirs := dirs w1 \<union> set (pathPrefixes ''/out'')\<rparr>"
  define w3 where "w3 = w2\<lparr>dirs := insert ''/tmp/2-segments'' (dirs w2)\<rparr>"
  define h' where "h' = demoDownloader\<lparr>h_tmpDir := ''/tmp/2-segments''\<rparr>"
  have p: "parseHLSSegments demoEnv (h_url demoDownloader) (h_header demoDownloader) demoWorld =
     (Inr [demoBad, demoNext], w1)"
    by (simp add: parseHLSSegments_def getM3u8ListType_def newRequest_def http_NewRequest_def
      demoEnv_def client_Do_def Let_def demoTransport_def demoDownloader_def demoWorld_def
      body_ReadAll_def demoPlaylist_def demoBad_def demoNext_def w1_def sharedKey_def)
  have m: "os_MkdirAll w1 (h_path demoDownloader) = Inr w2"
    by (simp add: os_MkdirAll_def demoDownloader_def demo_prefixes w1_def w2_def demoWorld_def)
  have t: "os_MkdirTemp demoEnv w2 = Inr (''/tmp/2-segments'', w3)"
    by (simp add: os_MkdirTemp_def demoEnv_def filepath_Join_def Let_def w1_def w2_def w3_def
      demoWorld_def demo_prefixes)
  have wk: "h_workers h' = 1" by (simp add: h'_def demoDownloader_def)
  note dl = download_fails_general [where h = h' and w = w3 and d = demoBad, OF demo_missing_transport]
  note rn = abort_run_general [OF wk dl no_reset, of demoNext]
  have ad: "afterDefer h' demoEnv [demoBad, demoNext] demoAbortSchedule w3 =
      Some (Inl (Err ''connection refused''),
        w3\<lparr>requests := requests w3 @
          [\<lparr>Via = h_client h', Method = ''GET'', URL = URI demoBad, Header = h_header h'\<rparr>]\<rparr>)"
    by (simp add: afterDefer_def processSegments_def rn)
  have D: "Download (Some demoDownloader) demoEnv demoAbortSchedule demoWorld =
      Some (Inl (Err ''connection refused''),
        snd (os_RemoveAll (w3\<lparr>requests := requests w3 @
          [\<lparr>Via = h_client h', Method = ''GET'', URL = URI demoBad, Header = h_header h'\<rparr>]\<rparr>)
          ''/tmp/2-segments''))"
    using ad by (simp add: Download_def p m t h'_def)
  have i: "inDir ''/tmp/2-segments'' ''/tmp/2-segments/seg0.ts''" by (simp add: inDir_def)
  from Download_removes_staging [OF D p m t] i show ?thesis
    using D by blast
qed


end
